theory Spec2Isabelle
  imports Complex_Main "HOL-Library.Char_ord" "HOL-Library.List_Lexorder" "HOL-Library.Product_Lexorder"
begin

section \<open>Python values\<close>

text \<open>
  The values that \<^verbatim>\<open>json.load\<close> can return, and so the values a field of a
  \<^verbatim>\<open>Block\<close> rebuilt by \<^verbatim>\<open>load_chain\<close> can hold. The program never
  computes with a float (it stores \<^verbatim>\<open>time.time()\<close>, formats it and dumps it), so the
  type of floats is a parameter \<open>'f\<close>. A \<^verbatim>\<open>dict\<close> is an association list in
  insertion order, with keys that are text, as JSON has them.
\<close>

datatype 'f pyval =
    PNone
  | PBool bool
  | PInt int
  | PFloat 'f
  | PStr string
  | PList "'f pyval list"
  | PDict "(string \<times> 'f pyval) list"

text \<open>The exceptions of the program, and one marker for the part of pandas left out.\<close>

datatype error =
    KeyError string
  | TypeError
  | IndexError
  | OSError
  | UnicodeDecodeError
  | ValueError
  | NonTextLabel

text \<open>A call either returns a value or raises; both leave a state behind.\<close>

datatype ('a, 's) outcome = Returned 'a 's | Raised error 's

text \<open>\<^verbatim>\<open>d[k]\<close> with a text key: only a \<^verbatim>\<open>dict\<close> can be indexed by text.\<close>

fun py_getitem :: "'f pyval \<Rightarrow> string \<Rightarrow> error + 'f pyval" where
  "py_getitem (PDict kvs) k =
     (case map_of kvs k of None \<Rightarrow> Inl (KeyError k) | Some v \<Rightarrow> Inr v)"
| "py_getitem PNone k = Inl TypeError"
| "py_getitem (PBool b) k = Inl TypeError"
| "py_getitem (PInt i) k = Inl TypeError"
| "py_getitem (PFloat f) k = Inl TypeError"
| "py_getitem (PStr s) k = Inl TypeError"
| "py_getitem (PList xs) k = Inl TypeError"

text \<open>
  \<^verbatim>\<open>for x in v\<close>: a list yields its elements, a dict its keys, a text its characters;
  nothing else is iterable.
\<close>

fun py_iter :: "'f pyval \<Rightarrow> error + 'f pyval list" where
  "py_iter (PList xs) = Inr xs"
| "py_iter (PDict kvs) = Inr (map (\<lambda>kv. PStr (fst kv)) kvs)"
| "py_iter (PStr s) = Inr (map (\<lambda>c. PStr [c]) s)"
| "py_iter PNone = Inl TypeError"
| "py_iter (PBool b) = Inl TypeError"
| "py_iter (PInt i) = Inl TypeError"
| "py_iter (PFloat f) = Inl TypeError"

section \<open>What the program takes from outside\<close>

text \<open>
  \<^item> \<open>sha256_hex s\<close> is \<^verbatim>\<open>hashlib.sha256(s.encode()).hexdigest()\<close>;
  \<^item> \<open>time_time k\<close> is what the call number \<open>k\<close> of \<^verbatim>\<open>time.time()\<close> returns
    (calls are counted from 0 in the state);
  \<^item> \<open>repr_value v\<close> is the text an f-string gives for a float, a list or a dict.
\<close>

record 'f env =
  sha256_hex :: "string \<Rightarrow> string"
  time_time :: "nat \<Rightarrow> 'f"
  repr_value :: "'f pyval \<Rightarrow> string"

fun str_nat :: "nat \<Rightarrow> string" where
  "str_nat n =
     (if n < 10 then [char_of (48 + n)]
      else str_nat (n div 10) @ [char_of (48 + n mod 10)])"

declare str_nat.simps [simp del]

definition str_int :: "int \<Rightarrow> string" where
  "str_int i = (if i < 0 then CHR ''-'' # str_nat (nat (- i)) else str_nat (nat i))"

text \<open>\<^verbatim>\<open>f"{v}"\<close>: the text of a value inside an f-string.\<close>

fun format_value :: "'f env \<Rightarrow> 'f pyval \<Rightarrow> string" where
  "format_value E (PStr s) = s"
| "format_value E (PInt i) = str_int i"
| "format_value E PNone = ''None''"
| "format_value E (PBool b) = (if b then ''True'' else ''False'')"
| "format_value E (PFloat f) = repr_value E (PFloat f)"
| "format_value E (PList xs) = repr_value E (PList xs)"
| "format_value E (PDict kvs) = repr_value E (PDict kvs)"

section \<open>Block\<close>

record 'f block =
  index :: "'f pyval"
  timestamp :: 'f
  voter_hash :: "'f pyval"
  state :: "'f pyval"
  district :: "'f pyval"
  party :: "'f pyval"
  previous_hash :: "'f pyval"
  hash :: string

definition calculate_hash :: "'f env \<Rightarrow> 'f block \<Rightarrow> string" where
  "calculate_hash E b =
     sha256_hex E
       (format_value E (index b) @ format_value E (PFloat (timestamp b))
        @ format_value E (voter_hash b) @ format_value E (state b)
        @ format_value E (district b) @ format_value E (party b)
        @ format_value E (previous_hash b))"

text \<open>
  \<^verbatim>\<open>Block.__init__\<close>; \<open>t\<close> is what \<^verbatim>\<open>time.time()\<close> returned inside it.
\<close>

definition Block_init ::
  "'f env \<Rightarrow> 'f \<Rightarrow> 'f pyval \<Rightarrow> 'f pyval \<Rightarrow> 'f pyval \<Rightarrow> 'f pyval \<Rightarrow> 'f pyval \<Rightarrow> 'f pyval
     \<Rightarrow> 'f block" where
  "Block_init E t i vh st di pa ph =
     (let b = \<lparr>index = i, timestamp = t, voter_hash = vh, state = st, district = di,
                party = pa, previous_hash = ph, hash = []\<rparr>
      in b\<lparr>hash := calculate_hash E b\<rparr>)"

text \<open>\<^verbatim>\<open>to_dict\<close> returns \<^verbatim>\<open>__dict__\<close>: the attributes in the order they were set.\<close>

definition to_dict :: "'f block \<Rightarrow> 'f pyval" where
  "to_dict b =
     PDict [(''index'', index b), (''timestamp'', PFloat (timestamp b)),
            (''voter_hash'', voter_hash b), (''state'', state b),
            (''district'', district b), (''party'', party b),
            (''previous_hash'', previous_hash b), (''hash'', PStr (hash b))]"

section \<open>Blockchain\<close>

text \<open>
  What \<^verbatim>\<open>open(filename, "r")\<close> and \<^verbatim>\<open>json.load\<close> find:
  \<^item> \<open>Missing\<close>: no file, \<^verbatim>\<open>open\<close> raises \<^verbatim>\<open>FileNotFoundError\<close>;
  \<^item> \<open>Unopenable\<close>: a directory, or a file the process may not read: \<^verbatim>\<open>open\<close>
    raises another \<^verbatim>\<open>OSError\<close> (\<^verbatim>\<open>IsADirectoryError\<close>, \<^verbatim>\<open>PermissionError\<close>);
  \<^item> \<open>Undecodable\<close>: bytes that are not text in the encoding of the file object: the
    read inside \<^verbatim>\<open>json.load\<close> raises \<^verbatim>\<open>UnicodeDecodeError\<close>;
  \<^item> \<open>Garbled\<close>: text that is not JSON, \<^verbatim>\<open>json.load\<close> raises
    \<^verbatim>\<open>json.JSONDecodeError\<close>;
  \<^item> \<open>Overlong\<close>: JSON with a whole number of more digits than \<^verbatim>\<open>int\<close> converts
    (4300 by default): \<^verbatim>\<open>json.load\<close> raises a plain \<^verbatim>\<open>ValueError\<close>;
  \<^item> \<open>Document v\<close>: a JSON document, parsed to the value \<open>v\<close>.
  \<^verbatim>\<open>json.dump\<close> followed by \<^verbatim>\<open>json.load\<close> gives the dumped value back, so the
  file holds the value itself.
\<close>

datatype 'f source =
    Missing
  | Unopenable
  | Undecodable
  | Garbled
  | Overlong
  | Document "'f pyval"

text \<open>
  The state: the list \<^verbatim>\<open>self.chain\<close> of the one \<^verbatim>\<open>Blockchain\<close> object, the number
  of calls of \<^verbatim>\<open>time.time()\<close> made so far, and the file \<^verbatim>\<open>blockchain.json\<close>.
\<close>

record 'f world =
  chain :: "'f block list"
  clock_calls :: nat
  json_file :: "'f source"

definition create_genesis_block :: "'f env \<Rightarrow> 'f world \<Rightarrow> 'f world" where
  "create_genesis_block E w =
     (let genesis_block =
            Block_init E (time_time E (clock_calls w)) (PInt 0) (PStr ''GENESIS'')
              (PStr ''None'') (PStr ''None'') (PStr ''None'') (PStr ''0'')
      in w\<lparr>chain := chain w @ [genesis_block], clock_calls := clock_calls w + 1\<rparr>)"

text \<open>\<^verbatim>\<open>self.chain[-1]\<close>: an \<^verbatim>\<open>IndexError\<close> on the empty list.\<close>

fun last_block :: "'f block list \<Rightarrow> error + 'f block" where
  "last_block [] = Inl IndexError"
| "last_block (b # bs) = Inr (last (b # bs))"

text \<open>
  \<^verbatim>\<open>add_vote\<close> has no \<^verbatim>\<open>return\<close>: the call evaluates to \<^verbatim>\<open>None\<close>, which is the
  returned value \<open>None\<close> here.
\<close>

definition add_vote ::
  "'f env \<Rightarrow> string \<Rightarrow> string \<Rightarrow> string \<Rightarrow> string \<Rightarrow> 'f world
     \<Rightarrow> ('f block option, 'f world) outcome" where
  "add_vote E voter_id st di pa w =
     (let w1 = (if length (chain w) = 0 then create_genesis_block E w else w)
      in case last_block (chain w1) of
           Inl e \<Rightarrow> Raised e w1
         | Inr previous_block \<Rightarrow>
             (let vh = sha256_hex E voter_id;
                  new_block =
                    Block_init E (time_time E (clock_calls w1))
                      (PInt (int (length (chain w1)))) (PStr vh) (PStr st) (PStr di)
                      (PStr pa) (PStr (hash previous_block))
              in Returned None
                   (w1\<lparr>chain := chain w1 @ [new_block],
                       clock_calls := clock_calls w1 + 1\<rparr>)))"

text \<open>
  The loop of \<^verbatim>\<open>is_chain_valid\<close>, from position \<open>i\<close> on. \<^verbatim>\<open>previous_hash\<close> may be
  any value after a load, \<^verbatim>\<open>hash\<close> is always text: they are equal only when the first
  is that text.
\<close>

function valid_from :: "'f block list \<Rightarrow> nat \<Rightarrow> bool" where
  "valid_from c i =
     (if i < length c then
        (if previous_hash (c ! i) \<noteq> PStr (hash (c ! (i - 1))) then False
         else valid_from c (i + 1))
      else True)"
  by pat_completeness auto
termination
  by (relation "measure (\<lambda>(c, i). length c - i)") auto

declare valid_from.simps [simp del]

definition is_chain_valid :: "'f block list \<Rightarrow> bool" where
  "is_chain_valid c = valid_from c 1"

definition save_chain :: "'f world \<Rightarrow> 'f world" where
  "save_chain w = w\<lparr>json_file := Document (PList (map to_dict (chain w)))\<rparr>"

text \<open>The six arguments \<^verbatim>\<open>load_chain\<close> reads from one record, left to right.\<close>

fun and_then :: "error + 'a \<Rightarrow> ('a \<Rightarrow> error + 'b) \<Rightarrow> error + 'b" where
  "and_then (Inl e) f = Inl e"
| "and_then (Inr x) f = f x"

definition block_args ::
  "'f pyval \<Rightarrow> error + ('f pyval \<times> 'f pyval \<times> 'f pyval \<times> 'f pyval \<times> 'f pyval \<times> 'f pyval)" where
  "block_args d =
     and_then (py_getitem d ''index'') (\<lambda>i.
     and_then (py_getitem d ''voter_hash'') (\<lambda>vh.
     and_then (py_getitem d ''state'') (\<lambda>st.
     and_then (py_getitem d ''district'') (\<lambda>di.
     and_then (py_getitem d ''party'') (\<lambda>pa.
     and_then (py_getitem d ''previous_hash'') (\<lambda>ph.
       Inr (i, vh, st, di, pa, ph)))))))"

text \<open>The \<^verbatim>\<open>for block_data in chain_data\<close> loop of \<^verbatim>\<open>load_chain\<close>.\<close>

fun load_blocks :: "'f env \<Rightarrow> 'f pyval list \<Rightarrow> 'f world \<Rightarrow> (unit, 'f world) outcome" where
  "load_blocks E [] w = Returned () w"
| "load_blocks E (block_data # rest) w =
     (case block_args block_data of
        Inl e \<Rightarrow> Raised e w
      | Inr (i, vh, st, di, pa, ph) \<Rightarrow>
          load_blocks E rest
            (w\<lparr>chain := chain w @ [Block_init E (time_time E (clock_calls w)) i vh st di pa ph],
               clock_calls := clock_calls w + 1\<rparr>))"

text \<open>
  \<^verbatim>\<open>load_chain\<close>: only \<^verbatim>\<open>FileNotFoundError\<close> and \<^verbatim>\<open>json.JSONDecodeError\<close> are
  caught; every other exception of \<^verbatim>\<open>open\<close>, of \<^verbatim>\<open>json.load\<close> and of the loop
  leaves the method. The last \<^verbatim>\<open>if\<close> runs whenever no exception escapes.
\<close>

definition ensure_genesis :: "'f env \<Rightarrow> 'f world \<Rightarrow> 'f world" where
  "ensure_genesis E w = (if length (chain w) = 0 then create_genesis_block E w else w)"

definition load_chain :: "'f env \<Rightarrow> 'f world \<Rightarrow> (unit, 'f world) outcome" where
  "load_chain E w =
     (case json_file w of
        Missing \<Rightarrow> Returned () (ensure_genesis E (create_genesis_block E w))
      | Unopenable \<Rightarrow> Raised OSError w
      | Undecodable \<Rightarrow> Raised UnicodeDecodeError w
      | Garbled \<Rightarrow> Returned () (ensure_genesis E (create_genesis_block E w))
      | Overlong \<Rightarrow> Raised ValueError w
      | Document chain_data \<Rightarrow>
          (let w1 = w\<lparr>chain := []\<rparr>
           in case py_iter chain_data of
                Inl e \<Rightarrow> Raised e w1
              | Inr records \<Rightarrow>
                  (case load_blocks E records w1 of
                     Raised e w2 \<Rightarrow> Raised e w2
                   | Returned u w2 \<Rightarrow> Returned () (ensure_genesis E w2))))"

text \<open>\<^verbatim>\<open>Blockchain.__init__\<close>.\<close>

definition Blockchain_init :: "'f env \<Rightarrow> 'f world \<Rightarrow> (unit, 'f world) outcome" where
  "Blockchain_init E w = load_chain E (w\<lparr>chain := []\<rparr>)"


section \<open>Vote counts\<close>

text \<open>
  \<^verbatim>\<open>block.index > 0\<close>: a number compares with \<^verbatim>\<open>0\<close> (\<^verbatim>\<open>True\<close> counts as 1),
  any other value raises \<^verbatim>\<open>TypeError\<close>.
\<close>

fun index_positive :: "'f::{zero,ord} pyval \<Rightarrow> error + bool" where
  "index_positive (PInt i) = Inr (0 < i)"
| "index_positive (PBool b) = Inr b"
| "index_positive (PFloat f) = Inr (0 < f)"
| "index_positive PNone = Inl TypeError"
| "index_positive (PStr s) = Inl TypeError"
| "index_positive (PList xs) = Inl TypeError"
| "index_positive (PDict kvs) = Inl TypeError"

text \<open>\<^verbatim>\<open>[vars(block) for block in blockchain.chain if block.index > 0]\<close>\<close>

fun select_votes :: "'f::{zero,ord} block list \<Rightarrow> error + 'f block list" where
  "select_votes [] = Inr []"
| "select_votes (b # bs) =
     and_then (index_positive (index b)) (\<lambda>keep.
     and_then (select_votes bs) (\<lambda>rest.
       Inr (if keep then b # rest else rest)))"

text \<open>The three grouping labels of a row, when all three are text.\<close>

definition vote_key :: "'f block \<Rightarrow> (string \<times> string \<times> string) option" where
  "vote_key b =
     (case (state b, district b, party b) of
        (PStr s, PStr d, PStr p) \<Rightarrow> Some (s, d, p)
      | _ \<Rightarrow> None)"

text \<open>A \<^verbatim>\<open>DataFrame\<close> of vote counts: its column names, and its rows as key and count.\<close>

record frame =
  columns :: "string list"
  rows :: "((string \<times> string \<times> string) \<times> nat) list"

text \<open>
  \<^verbatim>\<open>get_vote_counts\<close> on the chain of the global \<^verbatim>\<open>blockchain\<close>.
  \<^verbatim>\<open>groupby([...]).size().reset_index(name="Votes")\<close> gives one row per distinct key,
  in ascending order of the key, with the number of rows that have it. That is written out
  for labels that are text, which is all \<^verbatim>\<open>add_vote\<close> writes; what pandas does with
  other labels (a chain loaded from an edited file) is left out, as \<open>NonTextLabel\<close>.
\<close>

definition get_vote_counts :: "'f::{zero,ord} block list \<Rightarrow> error + frame" where
  "get_vote_counts c =
     and_then (select_votes c) (\<lambda>df.
       if df = [] then
         Inr \<lparr>columns = [''State'', ''District'', ''Party'', ''Votes''], rows = []\<rparr>
       else
         (case those (map vote_key df) of
            None \<Rightarrow> Inl NonTextLabel
          | Some keys \<Rightarrow>
              Inr \<lparr>columns = [''state'', ''district'', ''party'', ''Votes''],
                   rows = map (\<lambda>k. (k, count_list keys k)) (sort (remdups keys))\<rparr>))"

section \<open>Runs of the program\<close>

text \<open>One vote: the four arguments of \<^verbatim>\<open>add_vote\<close>.\<close>

type_synonym vote = "string \<times> string \<times> string \<times> string"

text \<open>Calls of \<^verbatim>\<open>add_vote\<close> one after the other; an exception ends the run.\<close>

fun add_votes :: "'f env \<Rightarrow> vote list \<Rightarrow> 'f world \<Rightarrow> ('f block option, 'f world) outcome" where
  "add_votes E [] w = Returned None w"
| "add_votes E ((voter_id, st, di, pa) # vs) w =
     (case add_vote E voter_id st di pa w of
        Raised e w' \<Rightarrow> Raised e w'
      | Returned r w' \<Rightarrow> add_votes E vs w')"

text \<open>
  A stand-in for the outside, to run the definitions: the clock gives whole seconds
  \<open>1000, 1001, \<dots>\<close>, a float prints as in Python when it is whole, and the
  digest is the text itself, so that it has no collisions, as SHA-256 has none in practice.
\<close>

definition test_env :: "rat env" where
  "test_env =
     \<lparr>sha256_hex = (\<lambda>s. s),
      time_time = (\<lambda>k. 1000 + of_nat k),
      repr_value = (\<lambda>v. case v of PFloat q \<Rightarrow> str_int \<lfloor>q\<rfloor> @ ''.0'' | _ \<Rightarrow> [])\<rparr>"

definition empty_world :: "rat world" where
  "empty_world = \<lparr>chain = [], clock_calls = 0, json_file = Missing\<rparr>"

text \<open>What a call returned, if it returned, and the state it left.\<close>

fun returned_value :: "('a, 's) outcome \<Rightarrow> 'a option" where
  "returned_value (Returned r s) = Some r"
| "returned_value (Raised e s) = None"

fun raised_error :: "('a, 's) outcome \<Rightarrow> error option" where
  "raised_error (Returned r s) = None"
| "raised_error (Raised e s) = Some e"

fun state_after :: "('a, 's) outcome \<Rightarrow> 's" where
  "state_after (Returned r s) = s"
| "state_after (Raised e s) = s"

text \<open>The keys \<^verbatim>\<open>load_chain\<close> reads from every record, in the order it reads them.\<close>

definition required_fields :: "string list" where
  "required_fields =
     [''index'', ''voter_hash'', ''state'', ''district'', ''party'', ''previous_hash'']"

text \<open>
  The chain the program builds in that setting from no file and one vote, and a block
  that does not link to it.
\<close>

definition sample_chain :: "rat block list" where
  "sample_chain =
     [\<lparr>index = PInt 0, timestamp = 1000, voter_hash = PStr ''GENESIS'',
       state = PStr ''None'', district = PStr ''None'', party = PStr ''None'',
       previous_hash = PStr ''0'', hash = ''01000.0GENESISNoneNoneNone0''\<rparr>,
      \<lparr>index = PInt 1, timestamp = 1001, voter_hash = PStr ''12345'',
       state = PStr ''Kerala'', district = PStr ''Ernakulam'', party = PStr ''LDF'',
       previous_hash = PStr ''01000.0GENESISNoneNoneNone0'',
       hash = ''11001.012345KeralaErnakulamLDF01000.0GENESISNoneNoneNone0''\<rparr>]"

definition stray_block :: "rat block" where
  "stray_block =
     \<lparr>index = PInt 2, timestamp = 1002, voter_hash = PStr ''67890'',
      state = PStr ''Kerala'', district = PStr ''Ernakulam'', party = PStr ''UDF'',
      previous_hash = PStr ''0'', hash = ''21002.067890KeralaErnakulamUDF0''\<rparr>"

text \<open>
  The chain the program builds in the same setting from no file and three votes, two of
  them for the same party in the same district.
\<close>

definition tally_chain :: "rat block list" where
  "tally_chain =
     [\<lparr>index = PInt 0, timestamp = 1000, voter_hash = PStr ''GENESIS'',
       state = PStr ''None'', district = PStr ''None'', party = PStr ''None'',
       previous_hash = PStr ''0'', hash = ''01000.0GENESISNoneNoneNone0''\<rparr>,
      \<lparr>index = PInt 1, timestamp = 1001, voter_hash = PStr ''67890'',
       state = PStr ''Kerala'', district = PStr ''Ernakulam'', party = PStr ''LDF'',
       previous_hash = PStr ''01000.0GENESISNoneNoneNone0'',
       hash = ''11001.067890KeralaErnakulamLDF01000.0GENESISNoneNoneNone0''\<rparr>,
      \<lparr>index = PInt 2, timestamp = 1002, voter_hash = PStr ''67890'',
       state = PStr ''Kerala'', district = PStr ''Ernakulam'', party = PStr ''LDF'',
       previous_hash = PStr ''11001.067890KeralaErnakulamLDF01000.0GENESISNoneNoneNone0'',
       hash = ''21002.067890KeralaErnakulamLDF11001.067890KeralaErnakulamLDF01000.0GENESISNoneNoneNone0''\<rparr>,
      \<lparr>index = PInt 3, timestamp = 1003, voter_hash = PStr ''11111'',
       state = PStr ''Tamil Nadu'', district = PStr ''Chennai'', party = PStr ''BJP'',
       previous_hash = PStr ''21002.067890KeralaErnakulamLDF11001.067890KeralaErnakulamLDF01000.0GENESISNoneNoneNone0'',
       hash = ''31003.011111Tamil NaduChennaiBJP21002.067890KeralaErnakulamLDF11001.067890KeralaErnakulamLDF01000.0GENESISNoneNoneNone0''\<rparr>]"

text \<open>
  The blocks \<^verbatim>\<open>load_chain\<close> builds from the records \<^verbatim>\<open>save_chain\<close> wrote for the
  blocks \<open>bs\<close>, when \<^verbatim>\<open>time.time()\<close> has been called \<open>k\<close> times before: each is
  a new \<^verbatim>\<open>Block\<close> from the six stored arguments, with the time of its own construction.
\<close>

fun rebuilt :: "'f env \<Rightarrow> nat \<Rightarrow> 'f block list \<Rightarrow> 'f block list" where
  "rebuilt E k [] = []"
| "rebuilt E k (b # bs) =
     Block_init E (time_time E k) (index b) (voter_hash b) (state b) (district b) (party b)
       (previous_hash b)
     # rebuilt E (Suc k) bs"

text \<open>
  The blocks the loop of \<^verbatim>\<open>load_chain\<close> builds from a list of argument tuples, when
  \<^verbatim>\<open>time.time()\<close> has been called \<open>k\<close> times before.
\<close>

fun built ::
  "'f env \<Rightarrow> nat
     \<Rightarrow> ('f pyval \<times> 'f pyval \<times> 'f pyval \<times> 'f pyval \<times> 'f pyval \<times> 'f pyval) list
     \<Rightarrow> 'f block list" where
  "built E k [] = []"
| "built E k ((i, vh, st, di, pa, ph) # rest) =
     Block_init E (time_time E k) i vh st di pa ph # built E (Suc k) rest"

text \<open>
  A file edited by hand: the record of the genesis block as \<^verbatim>\<open>save_chain\<close> writes it,
  then the record of a vote with the key \<^verbatim>\<open>party\<close> taken out.
\<close>

definition incomplete_record :: "rat pyval" where
  "incomplete_record =
     PDict [(''index'', PInt 1), (''timestamp'', PFloat 1001),
            (''voter_hash'', PStr ''12345''), (''state'', PStr ''Kerala''),
            (''district'', PStr ''Ernakulam''),
            (''previous_hash'', PStr ''01000.0GENESISNoneNoneNone0''),
            (''hash'', PStr ''11001.012345KeralaErnakulamLDF01000.0GENESISNoneNoneNone0'')]"

definition edited_world :: "rat world" where
  "edited_world =
     \<lparr>chain = [], clock_calls = 0,
      json_file = Document (PList [to_dict (hd sample_chain), incomplete_record])\<rparr>"

section \<open>The validity check\<close>

lemma valid_from_iff:
  "valid_from c k \<longleftrightarrow>
     (\<forall>i. k \<le> i \<and> i < length c \<longrightarrow> previous_hash (c ! i) = PStr (hash (c ! (i - 1))))"
proof (induction c k rule: valid_from.induct)
  case (1 c i)
  show ?case
  proof (cases "i < length c")
    case False
    then show ?thesis by (subst valid_from.simps) auto
  next
    case True
    show ?thesis
    proof (cases "previous_hash (c ! i) = PStr (hash (c ! (i - 1)))")
      case False
      with True show ?thesis by (subst valid_from.simps) auto
    next
      case eq: True
      have "valid_from c i = valid_from c (i + 1)"
        using True eq by (subst valid_from.simps) simp
      also have "\<dots> \<longleftrightarrow> (\<forall>j. i + 1 \<le> j \<and> j < length c \<longrightarrow>
                     previous_hash (c ! j) = PStr (hash (c ! (j - 1))))"
        using 1 True eq by simp
      also have "\<dots> \<longleftrightarrow> (\<forall>j. i \<le> j \<and> j < length c \<longrightarrow>
                     previous_hash (c ! j) = PStr (hash (c ! (j - 1))))"
      proof (intro iffI allI impI)
        fix j assume a: "\<forall>j. i + 1 \<le> j \<and> j < length c \<longrightarrow>
                     previous_hash (c ! j) = PStr (hash (c ! (j - 1)))" and b: "i \<le> j \<and> j < length c"
        show "previous_hash (c ! j) = PStr (hash (c ! (j - 1)))"
        proof (cases "j = i")
          case True then show ?thesis using eq by simp
        next
          case False then have "i + 1 \<le> j" using b by simp
          then show ?thesis using a b by blast
        qed
      next
        fix j assume a: "\<forall>j. i \<le> j \<and> j < length c \<longrightarrow>
                     previous_hash (c ! j) = PStr (hash (c ! (j - 1)))" and b: "i + 1 \<le> j \<and> j < length c"
        then have "i \<le> j \<and> j < length c" by simp
        then show "previous_hash (c ! j) = PStr (hash (c ! (j - 1)))" using a by blast
      qed
      finally show ?thesis .
    qed
  qed
qed

lemma is_chain_valid_iff:
  "is_chain_valid c \<longleftrightarrow>
     (\<forall>i. 1 \<le> i \<and> i < length c \<longrightarrow> previous_hash (c ! i) = PStr (hash (c ! (i - 1))))"
  unfolding is_chain_valid_def by (rule valid_from_iff)

lemma is_chain_valid_short: "length c \<le> 1 \<Longrightarrow> is_chain_valid c"
  by (auto simp: is_chain_valid_iff)

lemma is_chain_valid_snoc:
  assumes "c \<noteq> []"
  shows "is_chain_valid (c @ [b]) \<longleftrightarrow> is_chain_valid c \<and> previous_hash b = PStr (hash (last c))"
proof -
  have l: "last c = c ! (length c - 1)" using assms by (simp add: last_conv_nth)
  have pos: "1 \<le> length c" using assms by (cases c) auto
  have at_end: "(c @ [b]) ! length c = b" by simp
  have before_end: "(c @ [b]) ! (length c - 1) = c ! (length c - 1)"
    using pos by (simp add: nth_append)
  have inside: "(c @ [b]) ! i = c ! i \<and> (c @ [b]) ! (i - 1) = c ! (i - 1)" if "i < length c" for i
  proof -
    have "i - 1 < length c" using that by arith
    then show ?thesis using that by (simp add: nth_append)
  qed
  show ?thesis
  proof
    assume v: "is_chain_valid (c @ [b])"
    have "is_chain_valid c"
      unfolding is_chain_valid_iff
    proof (intro allI impI)
      fix i assume i: "1 \<le> i \<and> i < length c"
      then have "1 \<le> i \<and> i < length (c @ [b])" by simp
      then have "previous_hash ((c @ [b]) ! i) = PStr (hash ((c @ [b]) ! (i - 1)))"
        using v unfolding is_chain_valid_iff by blast
      then show "previous_hash (c ! i) = PStr (hash (c ! (i - 1)))"
        using i inside [of i] by simp
    qed
    moreover have "1 \<le> length c \<and> length c < length (c @ [b])" using pos by simp
    then have "previous_hash ((c @ [b]) ! length c) = PStr (hash ((c @ [b]) ! (length c - 1)))"
      using v unfolding is_chain_valid_iff by blast
    then have "previous_hash b = PStr (hash (last c))"
      using at_end before_end l by simp
    ultimately show "is_chain_valid c \<and> previous_hash b = PStr (hash (last c))" by simp
  next
    assume a: "is_chain_valid c \<and> previous_hash b = PStr (hash (last c))"
    show "is_chain_valid (c @ [b])"
      unfolding is_chain_valid_iff
    proof (intro allI impI)
      fix i assume i: "1 \<le> i \<and> i < length (c @ [b])"
      show "previous_hash ((c @ [b]) ! i) = PStr (hash ((c @ [b]) ! (i - 1)))"
      proof (cases "i < length c")
        case True
        then have "previous_hash (c ! i) = PStr (hash (c ! (i - 1)))"
          using a i unfolding is_chain_valid_iff by blast
        then show ?thesis using inside [OF True] by simp
      next
        case False
        then have "i = length c" using i by simp
        then show ?thesis using a at_end before_end l by simp
      qed
    qed
  qed
qed

lemma calculate_hash_ignores_hash: "calculate_hash E (b\<lparr>hash := h\<rparr>) = calculate_hash E b"
  by (simp add: calculate_hash_def)

lemma Block_init_sel [simp]:
  "index (Block_init E t i vh st di pa ph) = i"
  "timestamp (Block_init E t i vh st di pa ph) = t"
  "voter_hash (Block_init E t i vh st di pa ph) = vh"
  "state (Block_init E t i vh st di pa ph) = st"
  "district (Block_init E t i vh st di pa ph) = di"
  "party (Block_init E t i vh st di pa ph) = pa"
  "previous_hash (Block_init E t i vh st di pa ph) = ph"
  by (simp_all add: Block_init_def Let_def)

lemma Block_init_hash:
  "hash (Block_init E t i vh st di pa ph) = calculate_hash E (Block_init E t i vh st di pa ph)"
  by (simp add: Block_init_def Let_def calculate_hash_def)

lemma last_block_nonempty: "c \<noteq> [] \<Longrightarrow> last_block c = Inr (last c)"
  by (cases c) simp_all

lemma add_vote_nonempty:
  assumes "chain w \<noteq> []"
  shows "add_vote E v st di pa w =
     Returned None
       (w\<lparr>chain := chain w @
            [Block_init E (time_time E (clock_calls w)) (PInt (int (length (chain w))))
               (PStr (sha256_hex E v)) (PStr st) (PStr di) (PStr pa)
               (PStr (hash (last (chain w))))],
          clock_calls := clock_calls w + 1\<rparr>)"
  using assms by (simp add: add_vote_def Let_def last_block_nonempty)

lemma chain_create_genesis_block:
  "chain (create_genesis_block E w) =
     chain w @ [Block_init E (time_time E (clock_calls w)) (PInt 0) (PStr ''GENESIS'')
                  (PStr ''None'') (PStr ''None'') (PStr ''None'') (PStr ''0'')]"
  by (simp add: create_genesis_block_def Let_def)

lemma add_vote_empty:
  assumes "chain w = []"
  shows "add_vote E v st di pa w = add_vote E v st di pa (create_genesis_block E w)"
proof -
  have "chain (create_genesis_block E w) \<noteq> []" by (simp add: chain_create_genesis_block)
  then show ?thesis using assms by (simp add: add_vote_def)
qed

section \<open>Appending votes\<close>

lemma sample_chain_run:
  "add_votes test_env [(''12345'', ''Kerala'', ''Ernakulam'', ''LDF'')]
     (create_genesis_block test_env empty_world) =
   Returned None \<lparr>chain = sample_chain, clock_calls = 2, json_file = Missing\<rparr>"
  by code_simp

text \<open>
  C7. A ledger built with no file to load holds exactly the genesis block, with index
  0, fingerprint \<^verbatim>\<open>"GENESIS"\<close> and link \<^verbatim>\<open>"0"\<close>, and it passes the validity check:
  for \<^verbatim>\<open>create_genesis_block\<close> on the empty list of \<^verbatim>\<open>__init__\<close>, and for the
  constructor itself when \<^verbatim>\<open>blockchain.json\<close> does not exist.
\<close>

theorem genesis_ledger:
  "chain (create_genesis_block E (w\<lparr>chain := []\<rparr>)) =
     [Block_init E (time_time E (clock_calls w)) (PInt 0) (PStr ''GENESIS'')
        (PStr ''None'') (PStr ''None'') (PStr ''None'') (PStr ''0'')]
   \<and> length (chain (create_genesis_block E (w\<lparr>chain := []\<rparr>))) = 1
   \<and> index (chain (create_genesis_block E (w\<lparr>chain := []\<rparr>)) ! 0) = PInt 0
   \<and> voter_hash (chain (create_genesis_block E (w\<lparr>chain := []\<rparr>)) ! 0) = PStr ''GENESIS''
   \<and> previous_hash (chain (create_genesis_block E (w\<lparr>chain := []\<rparr>)) ! 0) = PStr ''0''
   \<and> is_chain_valid (chain (create_genesis_block E (w\<lparr>chain := []\<rparr>)))
   \<and> Blockchain_init E (w\<lparr>json_file := Missing\<rparr>) =
       Returned () (create_genesis_block E (w\<lparr>json_file := Missing, chain := []\<rparr>))"
proof -
  have c: "chain (create_genesis_block E (w\<lparr>chain := []\<rparr>)) =
     [Block_init E (time_time E (clock_calls w)) (PInt 0) (PStr ''GENESIS'')
        (PStr ''None'') (PStr ''None'') (PStr ''None'') (PStr ''0'')]"
    by (simp add: chain_create_genesis_block)
  have v: "is_chain_valid (chain (create_genesis_block E (w\<lparr>chain := []\<rparr>)))"
    by (rule is_chain_valid_short) (simp add: c)
  have "chain (create_genesis_block E (w\<lparr>json_file := Missing, chain := []\<rparr>)) \<noteq> []"
    by (simp add: chain_create_genesis_block)
  then have b: "Blockchain_init E (w\<lparr>json_file := Missing\<rparr>) =
       Returned () (create_genesis_block E (w\<lparr>json_file := Missing, chain := []\<rparr>))"
    by (simp add: Blockchain_init_def load_chain_def ensure_genesis_def)
  show ?thesis using c v b by simp
qed

lemma sample_vote_on_empty:
  "add_vote test_env ''12345'' ''Kerala'' ''Ernakulam'' ''LDF'' empty_world =
     Returned None \<lparr>chain = sample_chain, clock_calls = 2, json_file = Missing\<rparr>"
  by code_simp

text \<open>
  C9. \<^verbatim>\<open>add_vote\<close> returns on every state, the empty chain included. On the empty
  chain it first appends the genesis block, built at the time of the call, and
  \<^verbatim>\<open>self.chain[-1]\<close> is that block; on any other chain it is the last block. The
  call never raises. It leaves the chain it found, after the genesis block if it had to
  make one, followed by the one new block, which has the length of that chain as index and
  the hash of its last block as link; so the chain is never empty afterwards.
\<close>

theorem add_vote_total:
  "(let g = Block_init E (time_time E (clock_calls w)) (PInt 0) (PStr ''GENESIS'')
              (PStr ''None'') (PStr ''None'') (PStr ''None'') (PStr ''0'');
        c1 = (if chain w = [] then [g] else chain w);
        k1 = (if chain w = [] then clock_calls w + 1 else clock_calls w)
    in add_vote E v st di pa w =
         Returned None
           (w\<lparr>chain := c1 @ [Block_init E (time_time E k1) (PInt (int (length c1)))
                                (PStr (sha256_hex E v)) (PStr st) (PStr di) (PStr pa)
                                (PStr (hash (last c1)))],
              clock_calls := k1 + 1\<rparr>)
       \<and> c1 \<noteq> []
       \<and> last_block c1 = Inr (last c1))
   \<and> returned_value (add_vote E v st di pa w) = Some None
   \<and> raised_error (add_vote E v st di pa w) = None
   \<and> chain (state_after (add_vote E v st di pa w)) \<noteq> []"
proof (cases "chain w = []")
  case True
  let ?g = "Block_init E (time_time E (clock_calls w)) (PInt 0) (PStr ''GENESIS'')
              (PStr ''None'') (PStr ''None'') (PStr ''None'') (PStr ''0'')"
  let ?w0 = "create_genesis_block E w"
  have c0: "chain ?w0 = [?g]" using True by (simp add: chain_create_genesis_block)
  have k0: "clock_calls ?w0 = clock_calls w + 1"
    by (simp add: create_genesis_block_def Let_def)
  have n0: "chain ?w0 \<noteq> []" by (simp add: c0)
  have u: "?w0\<lparr>chain := X, clock_calls := Y\<rparr> = w\<lparr>chain := X, clock_calls := Y\<rparr>" for X Y
    by (simp add: create_genesis_block_def Let_def)
  have "add_vote E v st di pa w = add_vote E v st di pa ?w0"
    by (rule add_vote_empty [OF True])
  also have "\<dots> =
     Returned None
       (w\<lparr>chain := [?g] @ [Block_init E (time_time E (clock_calls w + 1)) (PInt (int (length [?g])))
                              (PStr (sha256_hex E v)) (PStr st) (PStr di) (PStr pa)
                              (PStr (hash (last [?g])))],
          clock_calls := clock_calls w + 1 + 1\<rparr>)"
    unfolding add_vote_nonempty [OF n0] c0 k0 u by simp
  finally have r: "add_vote E v st di pa w =
     Returned None
       (w\<lparr>chain := [?g] @ [Block_init E (time_time E (clock_calls w + 1)) (PInt (int (length [?g])))
                              (PStr (sha256_hex E v)) (PStr st) (PStr di) (PStr pa)
                              (PStr (hash (last [?g])))],
          clock_calls := clock_calls w + 1 + 1\<rparr>)" .
  show ?thesis unfolding Let_def r using True by simp
next
  case False
  have r: "add_vote E v st di pa w =
     Returned None
       (w\<lparr>chain := chain w @
            [Block_init E (time_time E (clock_calls w)) (PInt (int (length (chain w))))
               (PStr (sha256_hex E v)) (PStr st) (PStr di) (PStr pa)
               (PStr (hash (last (chain w))))],
          clock_calls := clock_calls w + 1\<rparr>)"
    by (rule add_vote_nonempty [OF False])
  show ?thesis unfolding Let_def r using False by (simp add: last_block_nonempty)
qed

theorem add_vote_total_witness:
  "add_vote test_env ''12345'' ''Kerala'' ''Ernakulam'' ''LDF'' empty_world =
     Returned None \<lparr>chain = sample_chain, clock_calls = 2, json_file = Missing\<rparr>
   \<and> returned_value (add_vote test_env ''12345'' ''Kerala'' ''Ernakulam'' ''LDF'' empty_world)
       = Some None
   \<and> raised_error (add_vote test_env ''12345'' ''Kerala'' ''Ernakulam'' ''LDF'' empty_world) = None
   \<and> chain (state_after (add_vote test_env ''12345'' ''Kerala'' ''Ernakulam'' ''LDF'' empty_world))
       \<noteq> []"
  using add_vote_total
      [where E = test_env and v = "''12345''" and st = "''Kerala''" and di = "''Ernakulam''"
         and pa = "''LDF''" and w = empty_world]
    sample_vote_on_empty
  by simp

text \<open>
  C3. \<^verbatim>\<open>is_chain_valid\<close> is true exactly when every block from position 1 on stores
  the hash of the block before it; a chain of length 0 or 1 is valid; a mismatch makes it
  false whatever comes after; and the answer depends on the stored
  \<^verbatim>\<open>previous_hash\<close> and \<^verbatim>\<open>hash\<close> alone, so no hash is computed again from the
  other fields.
\<close>

theorem is_chain_valid_links:
  "(is_chain_valid c \<longleftrightarrow>
      (\<forall>i. 1 \<le> i \<and> i < length c \<longrightarrow> previous_hash (c ! i) = PStr (hash (c ! (i - 1)))))
   \<and> (length c \<le> 1 \<longrightarrow> is_chain_valid c)
   \<and> (1 \<le> k \<and> k < length c \<and> previous_hash (c ! k) \<noteq> PStr (hash (c ! (k - 1)))
        \<longrightarrow> \<not> is_chain_valid c \<and> \<not> is_chain_valid (take (Suc k) c @ rest))
   \<and> (map previous_hash c = map previous_hash c' \<and> map hash c = map hash c'
        \<longrightarrow> is_chain_valid c = is_chain_valid c')"
proof (intro conjI impI)
  show "is_chain_valid c \<longleftrightarrow>
      (\<forall>i. 1 \<le> i \<and> i < length c \<longrightarrow> previous_hash (c ! i) = PStr (hash (c ! (i - 1))))"
    by (rule is_chain_valid_iff)
next
  assume "length c \<le> 1"
  then show "is_chain_valid c" by (rule is_chain_valid_short)
next
  assume m: "1 \<le> k \<and> k < length c \<and> previous_hash (c ! k) \<noteq> PStr (hash (c ! (k - 1)))"
  then show "\<not> is_chain_valid c" unfolding is_chain_valid_iff by blast
next
  assume m: "1 \<le> k \<and> k < length c \<and> previous_hash (c ! k) \<noteq> PStr (hash (c ! (k - 1)))"
  let ?d = "take (Suc k) c @ rest"
  have k1: "k - 1 < Suc k" by arith
  have "?d ! k = c ! k" using m by (simp add: nth_append)
  moreover have "?d ! (k - 1) = c ! (k - 1)" using m k1 by (simp add: nth_append)
  moreover have "1 \<le> k \<and> k < length ?d" using m by simp
  ultimately have "\<exists>i. 1 \<le> i \<and> i < length ?d \<and> previous_hash (?d ! i) \<noteq> PStr (hash (?d ! (i - 1)))"
    using m by metis
  then show "\<not> is_chain_valid ?d" unfolding is_chain_valid_iff by blast
next
  assume s: "map previous_hash c = map previous_hash c' \<and> map hash c = map hash c'"
  then have len: "length c = length c'" by (metis length_map)
  have p: "previous_hash (c ! i) = previous_hash (c' ! i)" if "i < length c" for i
    using s that len by (metis nth_map)
  have h: "hash (c ! i) = hash (c' ! i)" if "i < length c" for i
    using s that len by (metis nth_map)
  have "(\<forall>i. 1 \<le> i \<and> i < length c \<longrightarrow> previous_hash (c ! i) = PStr (hash (c ! (i - 1))))
     \<longleftrightarrow> (\<forall>i. 1 \<le> i \<and> i < length c' \<longrightarrow> previous_hash (c' ! i) = PStr (hash (c' ! (i - 1))))"
  proof (intro iffI allI impI)
    fix i assume a: "\<forall>i. 1 \<le> i \<and> i < length c \<longrightarrow> previous_hash (c ! i) = PStr (hash (c ! (i - 1)))"
      and i: "1 \<le> i \<and> i < length c'"
    have i1: "i - 1 < length c" using i len by arith
    have "previous_hash (c ! i) = PStr (hash (c ! (i - 1)))" using a i len by simp
    then show "previous_hash (c' ! i) = PStr (hash (c' ! (i - 1)))"
      using p [of i] h [OF i1] i len by simp
  next
    fix i assume a: "\<forall>i. 1 \<le> i \<and> i < length c' \<longrightarrow> previous_hash (c' ! i) = PStr (hash (c' ! (i - 1)))"
      and i: "1 \<le> i \<and> i < length c"
    have i1: "i - 1 < length c" using i by arith
    have "previous_hash (c' ! i) = PStr (hash (c' ! (i - 1)))" using a i len by simp
    then show "previous_hash (c ! i) = PStr (hash (c ! (i - 1)))"
      using p [of i] h [OF i1] i by simp
  qed
  then show "is_chain_valid c = is_chain_valid c'" unfolding is_chain_valid_iff .
qed

theorem is_chain_valid_links_witness:
  "is_chain_valid sample_chain
   \<and> is_chain_valid (take 1 sample_chain)
   \<and> \<not> is_chain_valid (sample_chain @ [stray_block])
   \<and> \<not> is_chain_valid (take (Suc 2) (sample_chain @ [stray_block]) @ sample_chain)
   \<and> is_chain_valid (map (\<lambda>b. b\<lparr>party := PStr ''UDF''\<rparr>) sample_chain)"
proof -
  have len: "length sample_chain = 2" by (simp add: sample_chain_def)
  have "previous_hash (sample_chain ! i) = PStr (hash (sample_chain ! (i - 1)))"
    if "1 \<le> i \<and> i < length sample_chain" for i
  proof -
    have "i = 1" using that len by simp
    then show ?thesis by (simp add: sample_chain_def)
  qed
  then have a: "is_chain_valid sample_chain"
    using is_chain_valid_links [of sample_chain] by blast
  have b: "is_chain_valid (take 1 sample_chain)"
    using is_chain_valid_links [of "take 1 sample_chain"] by simp
  have m: "1 \<le> (2::nat) \<and> 2 < length (sample_chain @ [stray_block])
           \<and> previous_hash ((sample_chain @ [stray_block]) ! 2)
               \<noteq> PStr (hash ((sample_chain @ [stray_block]) ! (2 - 1)))"
    by (simp add: sample_chain_def stray_block_def)
  have c: "\<not> is_chain_valid (sample_chain @ [stray_block])
           \<and> \<not> is_chain_valid (take (Suc 2) (sample_chain @ [stray_block]) @ sample_chain)"
    using m is_chain_valid_links [of "sample_chain @ [stray_block]" 2 sample_chain] by blast
  have s: "map previous_hash sample_chain =
             map previous_hash (map (\<lambda>b. b\<lparr>party := PStr ''UDF''\<rparr>) sample_chain)
           \<and> map hash sample_chain =
             map hash (map (\<lambda>b. b\<lparr>party := PStr ''UDF''\<rparr>) sample_chain)"
    by (simp add: sample_chain_def)
  have d: "is_chain_valid (map (\<lambda>b. b\<lparr>party := PStr ''UDF''\<rparr>) sample_chain)"
    using a s is_chain_valid_links
      [of sample_chain _ _ "map (\<lambda>b. b\<lparr>party := PStr ''UDF''\<rparr>) sample_chain"]
    by blast
  show ?thesis using a b c d by simp
qed

text \<open>
  C4, as the code has it. On a chain that is not empty, \<^verbatim>\<open>add_vote\<close> builds one block
  whose index is the length of the chain before the call, whose fingerprint is the digest
  of the raw identifier and whose link is the hash of the last block, and appends it,
  leaving the blocks before it as they were. The call returns \<^verbatim>\<open>None\<close>: the new
  block is not handed to the caller.
\<close>

theorem add_vote_appends:
  assumes "chain w \<noteq> []"
  shows "\<exists>b. add_vote E v st di pa w =
           Returned None (w\<lparr>chain := chain w @ [b], clock_calls := clock_calls w + 1\<rparr>)
         \<and> index b = PInt (int (length (chain w)))
         \<and> timestamp b = time_time E (clock_calls w)
         \<and> voter_hash b = PStr (sha256_hex E v)
         \<and> state b = PStr st \<and> district b = PStr di \<and> party b = PStr pa
         \<and> previous_hash b = PStr (hash (last (chain w)))
         \<and> hash b = calculate_hash E b"
proof -
  let ?b = "Block_init E (time_time E (clock_calls w)) (PInt (int (length (chain w))))
               (PStr (sha256_hex E v)) (PStr st) (PStr di) (PStr pa)
               (PStr (hash (last (chain w))))"
  have "add_vote E v st di pa w =
           Returned None (w\<lparr>chain := chain w @ [?b], clock_calls := clock_calls w + 1\<rparr>)"
    by (rule add_vote_nonempty [OF assms])
  moreover have "hash ?b = calculate_hash E ?b" by (rule Block_init_hash)
  ultimately show ?thesis by (intro exI [of _ ?b]) simp
qed


theorem add_vote_appends_witness:
  "chain (create_genesis_block test_env empty_world) \<noteq> []
   \<and> (\<exists>b. add_vote test_env ''12345'' ''Kerala'' ''Ernakulam'' ''LDF''
              (create_genesis_block test_env empty_world) =
            Returned None
              \<lparr>chain = chain (create_genesis_block test_env empty_world) @ [b],
               clock_calls = 2, json_file = Missing\<rparr>
          \<and> index b = PInt 1 \<and> timestamp b = 1001
          \<and> voter_hash b = PStr ''12345''
          \<and> state b = PStr ''Kerala'' \<and> district b = PStr ''Ernakulam''
          \<and> party b = PStr ''LDF''
          \<and> previous_hash b =
              PStr (hash (last (chain (create_genesis_block test_env empty_world))))
          \<and> hash b = calculate_hash test_env b)"
proof -
  have h: "chain (create_genesis_block test_env empty_world) \<noteq> []"
    by (simp add: chain_create_genesis_block)
  have w: "create_genesis_block test_env empty_world
             \<lparr>chain := chain (create_genesis_block test_env empty_world) @ [b],
              clock_calls := clock_calls (create_genesis_block test_env empty_world) + 1\<rparr>
           = \<lparr>chain = chain (create_genesis_block test_env empty_world) @ [b],
               clock_calls = 2, json_file = Missing\<rparr>" for b
    by (simp add: create_genesis_block_def empty_world_def Let_def)
  have l: "int (length (chain (create_genesis_block test_env empty_world))) = 1"
    by (simp add: chain_create_genesis_block empty_world_def)
  have t: "time_time test_env (clock_calls (create_genesis_block test_env empty_world)) = 1001"
    by (simp add: create_genesis_block_def empty_world_def test_env_def Let_def)
  have s: "sha256_hex test_env ''12345'' = ''12345''"
    by (simp add: test_env_def)
  show ?thesis
    using h add_vote_appends [OF h, of test_env "''12345''" "''Kerala''" "''Ernakulam''" "''LDF''"]
    unfolding w l t s by simp
qed

text \<open>
  C4 as stated fails: after one vote on the genesis-only ledger, what \<^verbatim>\<open>add_vote\<close>
  returned is not the block it appended.
\<close>

theorem add_vote_returns_entry_counterexample:
  "returned_value (add_vote test_env ''12345'' ''Kerala'' ''Ernakulam'' ''LDF''
       (create_genesis_block test_env empty_world))
   \<noteq> Some (Some (last (chain (state_after
        (add_vote test_env ''12345'' ''Kerala'' ''Ernakulam'' ''LDF''
           (create_genesis_block test_env empty_world))))))"
proof -
  have h: "chain (create_genesis_block test_env empty_world) \<noteq> []"
    by (simp add: chain_create_genesis_block)
  show ?thesis by (simp add: add_vote_nonempty [OF h])
qed

lemma add_votes_preserves:
  assumes "chain w \<noteq> []"
    and "\<forall>i<length (chain w). index (chain w ! i) = PInt (int i)"
    and "is_chain_valid (chain w)"
  shows "\<exists>w'. add_votes E vs w = Returned None w'
           \<and> length (chain w') = length (chain w) + length vs
           \<and> (\<forall>i<length (chain w'). index (chain w' ! i) = PInt (int i))
           \<and> is_chain_valid (chain w')"
  using assms
proof (induction vs arbitrary: w)
  case Nil
  then show ?case by simp
next
  case (Cons v vs)
  obtain voter_id st di pa where v: "v = (voter_id, st, di, pa)" by (cases v) auto
  let ?b = "Block_init E (time_time E (clock_calls w)) (PInt (int (length (chain w))))
               (PStr (sha256_hex E voter_id)) (PStr st) (PStr di) (PStr pa)
               (PStr (hash (last (chain w))))"
  let ?w1 = "w\<lparr>chain := chain w @ [?b], clock_calls := clock_calls w + 1\<rparr>"
  have step: "add_vote E voter_id st di pa w = Returned None ?w1"
    by (rule add_vote_nonempty [OF Cons.prems(1)])
  have c1: "chain ?w1 = chain w @ [?b]" by simp
  have n1: "chain ?w1 \<noteq> []" by simp
  have i1: "\<forall>i<length (chain ?w1). index (chain ?w1 ! i) = PInt (int i)"
  proof (intro allI impI)
    fix i assume "i < length (chain ?w1)"
    then have "i < length (chain w) \<or> i = length (chain w)" by auto
    then show "index (chain ?w1 ! i) = PInt (int i)"
      using Cons.prems(2) by (auto simp: nth_append)
  qed
  have v1: "is_chain_valid (chain ?w1)"
    unfolding c1 using Cons.prems(1,3) by (simp add: is_chain_valid_snoc)
  obtain w' where r: "add_votes E vs ?w1 = Returned None w'"
      and l: "length (chain w') = length (chain ?w1) + length vs"
      and i: "\<forall>i<length (chain w'). index (chain w' ! i) = PInt (int i)"
      and va: "is_chain_valid (chain w')"
    using Cons.IH [OF n1 i1 v1] by blast
  have "add_votes E (v # vs) w = Returned None w'"
    using step r by (simp add: v)
  moreover have "length (chain w') = length (chain w) + length (v # vs)"
    using l by simp
  ultimately show ?case using i va by blast
qed

text \<open>
  C2. Starting from the ledger that holds only the genesis block, any number \<open>n\<close> of
  calls of \<^verbatim>\<open>add_vote\<close> one after the other all return, and leave a chain of length
  \<open>n + 1\<close> in which the block at every position \<open>i\<close> has index \<open>i\<close> and which
  passes \<^verbatim>\<open>is_chain_valid\<close>.
\<close>

theorem add_votes_growth:
  "\<exists>w'. add_votes E vs (create_genesis_block E (w\<lparr>chain := []\<rparr>)) = Returned None w'
     \<and> length (chain w') = length vs + 1
     \<and> (\<forall>i<length (chain w'). index (chain w' ! i) = PInt (int i))
     \<and> is_chain_valid (chain w')"
proof -
  let ?g = "create_genesis_block E (w\<lparr>chain := []\<rparr>)"
  have c: "chain ?g =
     [Block_init E (time_time E (clock_calls w)) (PInt 0) (PStr ''GENESIS'')
        (PStr ''None'') (PStr ''None'') (PStr ''None'') (PStr ''0'')]"
    by (simp add: chain_create_genesis_block)
  have n: "chain ?g \<noteq> []" by (simp add: c)
  have i: "\<forall>i<length (chain ?g). index (chain ?g ! i) = PInt (int i)" by (simp add: c)
  have v: "is_chain_valid (chain ?g)" by (rule is_chain_valid_short) (simp add: c)
  have "length (chain ?g) = 1" by (simp add: c)
  then show ?thesis using add_votes_preserves [OF n i v, of E vs] by simp
qed

theorem add_votes_growth_witness:
  "add_votes test_env [(''12345'', ''Kerala'', ''Ernakulam'', ''LDF'')]
     (create_genesis_block test_env (empty_world\<lparr>chain := []\<rparr>)) =
     Returned None \<lparr>chain = sample_chain, clock_calls = 2, json_file = Missing\<rparr>
   \<and> length sample_chain = length [(''12345'', ''Kerala'', ''Ernakulam'', ''LDF'')] + 1
   \<and> index (sample_chain ! 0) = PInt 0
   \<and> index (sample_chain ! 1) = PInt 1
   \<and> is_chain_valid sample_chain"
proof -
  have e: "empty_world\<lparr>chain := []\<rparr> = empty_world" by (simp add: empty_world_def)
  obtain w' where
    r: "add_votes test_env [(''12345'', ''Kerala'', ''Ernakulam'', ''LDF'')]
          (create_genesis_block test_env (empty_world\<lparr>chain := []\<rparr>)) = Returned None w'"
    and l: "length (chain w') = length [(''12345'', ''Kerala'', ''Ernakulam'', ''LDF'')] + 1"
    and i: "\<forall>i<length (chain w'). index (chain w' ! i) = PInt (int i)"
    and v: "is_chain_valid (chain w')"
    using add_votes_growth [of test_env "[(''12345'', ''Kerala'', ''Ernakulam'', ''LDF'')]" empty_world]
    by blast
  have w': "w' = \<lparr>chain = sample_chain, clock_calls = 2, json_file = Missing\<rparr>"
    using r sample_chain_run unfolding e by simp
  have c: "chain w' = sample_chain" by (simp add: w')
  have "index (sample_chain ! 0) = PInt (int 0)" using i l unfolding c by simp
  moreover have "index (sample_chain ! 1) = PInt (int 1)" using i l unfolding c by simp
  ultimately show ?thesis using r l v unfolding c w' by simp
qed

section \<open>Loading the chain\<close>

lemma load_chain_no_document:
  assumes "chain w = []" and "json_file w = Missing \<or> json_file w = Garbled"
  shows "load_chain E w = Returned () (create_genesis_block E w)"
proof -
  have "chain (create_genesis_block E w) \<noteq> []" by (simp add: chain_create_genesis_block)
  then have "ensure_genesis E (create_genesis_block E w) = create_genesis_block E w"
    by (simp add: ensure_genesis_def)
  then show ?thesis using assms(2) by (auto simp: load_chain_def)
qed

lemma load_chain_no_records:
  assumes "json_file w = Document d" and "py_iter d = Inr []"
  shows "load_chain E w = Returned () (create_genesis_block E (w\<lparr>chain := []\<rparr>))"
  using assms by (simp add: load_chain_def ensure_genesis_def)

lemma load_chain_escapes:
  "json_file w = Unopenable \<Longrightarrow> load_chain E w = Raised OSError w"
  "json_file w = Undecodable \<Longrightarrow> load_chain E w = Raised UnicodeDecodeError w"
  "json_file w = Overlong \<Longrightarrow> load_chain E w = Raised ValueError w"
  by (simp_all add: load_chain_def)

lemma load_fallback:
  assumes "json_file w = Missing \<or> json_file w = Garbled
           \<or> (\<exists>d. json_file w = Document d \<and> py_iter d = Inr [])"
  shows "Blockchain_init E w = Returned () (create_genesis_block E (w\<lparr>chain := []\<rparr>))"
proof -
  let ?w = "w\<lparr>chain := []\<rparr>"
  have c: "chain ?w = []" by simp
  have "load_chain E ?w = Returned () (create_genesis_block E ?w)"
  proof (cases "json_file w = Missing \<or> json_file w = Garbled")
    case True
    then have "json_file ?w = Missing \<or> json_file ?w = Garbled" by simp
    then show ?thesis by (rule load_chain_no_document [OF c])
  next
    case False
    then obtain d where d: "json_file w = Document d" "py_iter d = Inr []" using assms by blast
    then have "json_file ?w = Document d" by simp
    then show ?thesis using load_chain_no_records [of ?w d E] d(2) by simp
  qed
  then show ?thesis by (simp add: Blockchain_init_def)
qed

text \<open>
  C6, as the code has it. When \<^verbatim>\<open>blockchain.json\<close> does not exist, is text that is not
  JSON, or holds a document that yields no record, building the \<^verbatim>\<open>Blockchain\<close>
  raises nothing and leaves the ledger that holds the genesis block alone, as
  \<^verbatim>\<open>create_genesis_block\<close> makes it on the empty chain. A file that cannot be opened,
  whose bytes cannot be decoded, or whose JSON has a whole number too long to convert is
  not recovered: the \<^verbatim>\<open>OSError\<close>, \<^verbatim>\<open>UnicodeDecodeError\<close> or \<^verbatim>\<open>ValueError\<close>
  reaches the caller, with the chain empty.
\<close>

theorem load_falls_back_to_genesis:
  "(json_file w = Missing \<or> json_file w = Garbled
      \<or> (\<exists>d. json_file w = Document d \<and> py_iter d = Inr [])
      \<longrightarrow> Blockchain_init E w = Returned () (create_genesis_block E (w\<lparr>chain := []\<rparr>))
          \<and> raised_error (Blockchain_init E w) = None
          \<and> length (chain (state_after (Blockchain_init E w))) = 1)
   \<and> (json_file w = Unopenable \<longrightarrow> Blockchain_init E w = Raised OSError (w\<lparr>chain := []\<rparr>))
   \<and> (json_file w = Undecodable
        \<longrightarrow> Blockchain_init E w = Raised UnicodeDecodeError (w\<lparr>chain := []\<rparr>))
   \<and> (json_file w = Overlong \<longrightarrow> Blockchain_init E w = Raised ValueError (w\<lparr>chain := []\<rparr>))"
proof (intro conjI impI)
  assume a: "json_file w = Missing \<or> json_file w = Garbled
      \<or> (\<exists>d. json_file w = Document d \<and> py_iter d = Inr [])"
  have r: "Blockchain_init E w = Returned () (create_genesis_block E (w\<lparr>chain := []\<rparr>))"
    by (rule load_fallback [OF a])
  show "Blockchain_init E w = Returned () (create_genesis_block E (w\<lparr>chain := []\<rparr>))"
    by (rule r)
  show "raised_error (Blockchain_init E w) = None" unfolding r by simp
  show "length (chain (state_after (Blockchain_init E w))) = 1"
    unfolding r by (simp add: chain_create_genesis_block)
next
  assume "json_file w = Unopenable"
  then show "Blockchain_init E w = Raised OSError (w\<lparr>chain := []\<rparr>)"
    by (simp add: Blockchain_init_def load_chain_escapes)
next
  assume "json_file w = Undecodable"
  then show "Blockchain_init E w = Raised UnicodeDecodeError (w\<lparr>chain := []\<rparr>)"
    by (simp add: Blockchain_init_def load_chain_escapes)
next
  assume "json_file w = Overlong"
  then show "Blockchain_init E w = Raised ValueError (w\<lparr>chain := []\<rparr>)"
    by (simp add: Blockchain_init_def load_chain_escapes)
qed

theorem load_falls_back_to_genesis_witness:
  "Blockchain_init test_env empty_world =
     Returned () (create_genesis_block test_env (empty_world\<lparr>chain := []\<rparr>))
   \<and> Blockchain_init test_env (empty_world\<lparr>json_file := Garbled\<rparr>) =
     Returned () (create_genesis_block test_env (empty_world\<lparr>json_file := Garbled, chain := []\<rparr>))
   \<and> Blockchain_init test_env (empty_world\<lparr>json_file := Document (PList [])\<rparr>) =
     Returned ()
       (create_genesis_block test_env (empty_world\<lparr>json_file := Document (PList []), chain := []\<rparr>))
   \<and> Blockchain_init test_env (empty_world\<lparr>chain := sample_chain, json_file := Document (PDict [])\<rparr>) =
     Returned ()
       (create_genesis_block test_env
          (empty_world\<lparr>chain := sample_chain, json_file := Document (PDict []), chain := []\<rparr>))
   \<and> Blockchain_init test_env (empty_world\<lparr>json_file := Unopenable\<rparr>) =
     Raised OSError (empty_world\<lparr>json_file := Unopenable, chain := []\<rparr>)
   \<and> Blockchain_init test_env (empty_world\<lparr>json_file := Undecodable\<rparr>) =
     Raised UnicodeDecodeError (empty_world\<lparr>json_file := Undecodable, chain := []\<rparr>)
   \<and> Blockchain_init test_env (empty_world\<lparr>json_file := Overlong\<rparr>) =
     Raised ValueError (empty_world\<lparr>json_file := Overlong, chain := []\<rparr>)"
proof -
  have a: "json_file empty_world = Missing" by (simp add: empty_world_def)
  have d: "\<exists>d. json_file (empty_world\<lparr>json_file := Document (PList [])\<rparr>) = Document d
                \<and> py_iter d = Inr []"
    by simp
  have e: "\<exists>d. json_file (empty_world\<lparr>chain := sample_chain, json_file := Document (PDict [])\<rparr>)
                  = Document d \<and> py_iter d = Inr []"
    by simp
  show ?thesis
    using load_falls_back_to_genesis [of empty_world test_env] a
      load_falls_back_to_genesis [of "empty_world\<lparr>json_file := Garbled\<rparr>" test_env]
      load_falls_back_to_genesis [of "empty_world\<lparr>json_file := Document (PList [])\<rparr>" test_env] d
      load_falls_back_to_genesis
        [of "empty_world\<lparr>chain := sample_chain, json_file := Document (PDict [])\<rparr>" test_env] e
      load_falls_back_to_genesis [of "empty_world\<lparr>json_file := Unopenable\<rparr>" test_env]
      load_falls_back_to_genesis [of "empty_world\<lparr>json_file := Undecodable\<rparr>" test_env]
      load_falls_back_to_genesis [of "empty_world\<lparr>json_file := Overlong\<rparr>" test_env]
    by simp
qed

text \<open>
  C6 as stated fails: a file whose bytes are not text is unparsable, and building the
  \<^verbatim>\<open>Blockchain\<close> on it does not give the genesis-only ledger; it raises
  \<^verbatim>\<open>UnicodeDecodeError\<close>.
\<close>

theorem load_unparsable_counterexample:
  "Blockchain_init test_env (empty_world\<lparr>json_file := Undecodable\<rparr>)
     \<noteq> Returned ()
         (create_genesis_block test_env (empty_world\<lparr>json_file := Undecodable, chain := []\<rparr>))
   \<and> raised_error (Blockchain_init test_env (empty_world\<lparr>json_file := Undecodable\<rparr>))
       = Some UnicodeDecodeError"
  by (simp add: Blockchain_init_def load_chain_escapes)

lemma block_args_dict_error:
  assumes "block_args (PDict kvs) = Inl e"
  shows "\<exists>k\<in>set required_fields. e = KeyError k \<and> map_of kvs k = None
           \<and> (\<forall>k0\<in>set (takeWhile (\<lambda>x. x \<noteq> k) required_fields). map_of kvs k0 \<noteq> None)"
  using assms
  by (auto simp: block_args_def required_fields_def split: option.splits)

lemma block_args_missing:
  assumes "k \<in> set required_fields" and "map_of kvs k = None"
  shows "\<exists>e. block_args (PDict kvs) = Inl e"
  using assms
  by (auto simp: block_args_def required_fields_def split: option.splits)

lemma block_args_complete:
  assumes "block_args (PDict kvs) = Inr (i, vh, st, di, pa, ph)"
  shows "map_of kvs ''index'' = Some i \<and> map_of kvs ''voter_hash'' = Some vh
         \<and> map_of kvs ''state'' = Some st \<and> map_of kvs ''district'' = Some di
         \<and> map_of kvs ''party'' = Some pa \<and> map_of kvs ''previous_hash'' = Some ph"
  using assms
  by (auto simp: block_args_def split: option.splits)

lemma load_blocks_incomplete:
  assumes "\<forall>r\<in>set recs. \<exists>kvs. r = PDict kvs"
    and "\<exists>r\<in>set recs. \<exists>e. block_args r = Inl e"
  shows "\<exists>j k args. j < length recs
           \<and> map block_args (take j recs) = map Inr args
           \<and> block_args (recs ! j) = Inl (KeyError k)
           \<and> load_blocks E recs w =
               Raised (KeyError k)
                 (w\<lparr>chain := chain w @ built E (clock_calls w) args,
                    clock_calls := clock_calls w + j\<rparr>)"
  using assms
proof (induction recs arbitrary: w)
  case Nil
  then show ?case by simp
next
  case (Cons r recs)
  obtain kvs where r: "r = PDict kvs" using Cons.prems(1) by auto
  show ?case
  proof (cases "block_args r")
    case (Inl e)
    then obtain k where k: "e = KeyError k"
      using block_args_dict_error [of kvs e] r by blast
    have "load_blocks E (r # recs) w = Raised (KeyError k) w"
      using Inl k by simp
    then have "0 < length (r # recs)
           \<and> map block_args (take 0 (r # recs)) = map Inr []
           \<and> block_args ((r # recs) ! 0) = Inl (KeyError k)
           \<and> load_blocks E (r # recs) w =
               Raised (KeyError k)
                 (w\<lparr>chain := chain w @ built E (clock_calls w) [],
                    clock_calls := clock_calls w + 0\<rparr>)"
      using Inl k by simp
    then show ?thesis by blast
  next
    case (Inr a)
    obtain i vh st di pa ph where a: "a = (i, vh, st, di, pa, ph)"
      by (cases a) auto
    let ?w1 = "w\<lparr>chain := chain w @ [Block_init E (time_time E (clock_calls w)) i vh st di pa ph],
                  clock_calls := clock_calls w + 1\<rparr>"
    have step: "load_blocks E (r # recs) w = load_blocks E recs ?w1"
      using Inr a by simp
    have p1: "\<forall>r\<in>set recs. \<exists>kvs. r = PDict kvs" using Cons.prems(1) by simp
    have p2: "\<exists>r\<in>set recs. \<exists>e. block_args r = Inl e" using Cons.prems(2) Inr by auto
    obtain j k args where j: "j < length recs"
        "map block_args (take j recs) = map Inr args"
        "block_args (recs ! j) = Inl (KeyError k)"
        "load_blocks E recs ?w1 =
           Raised (KeyError k)
             (?w1\<lparr>chain := chain ?w1 @ built E (clock_calls ?w1) args,
                  clock_calls := clock_calls ?w1 + j\<rparr>)"
      using Cons.IH [OF p1 p2, of ?w1] by blast
    have "Suc j < length (r # recs)
           \<and> map block_args (take (Suc j) (r # recs)) = map Inr (a # args)
           \<and> block_args ((r # recs) ! Suc j) = Inl (KeyError k)
           \<and> load_blocks E (r # recs) w =
               Raised (KeyError k)
                 (w\<lparr>chain := chain w @ built E (clock_calls w) (a # args),
                    clock_calls := clock_calls w + Suc j\<rparr>)"
      using j step Inr by (simp add: a)
    then show ?thesis by blast
  qed
qed

text \<open>
  C5, as the code has it. When \<^verbatim>\<open>blockchain.json\<close> holds a list of JSON objects and
  one of them lacks a required key, building the \<^verbatim>\<open>Blockchain\<close> raises
  \<^verbatim>\<open>KeyError\<close> to the caller (\<^verbatim>\<open>load_chain\<close> catches only
  \<^verbatim>\<open>FileNotFoundError\<close> and \<^verbatim>\<open>json.JSONDecodeError\<close>). The error comes from the
  first incomplete record, at position \<open>j\<close>: every record before it has all six keys, and
  the key named is the first of the six, in the order they are read, that the record
  lacks. The chain is left holding exactly the \<open>j\<close> blocks built from the records before
  it, each from its six stored values and the time of its building, and the clock has
  been read \<open>j\<close> times. The record is not skipped and the ledger is not set back to the
  genesis block.
\<close>

theorem load_raises_on_incomplete_record:
  assumes "json_file w = Document (PList recs)"
    and "\<forall>r\<in>set recs. \<exists>kvs. r = PDict kvs"
    and "PDict kvs \<in> set recs" and "k \<in> set required_fields" and "map_of kvs k = None"
  shows "\<exists>j k' kvs' args.
           j < length recs
           \<and> length args = j
           \<and> (\<forall>i<j. \<exists>kvs0. recs ! i = PDict kvs0
                  \<and> map_of kvs0 ''index'' = Some (fst (args ! i))
                  \<and> map_of kvs0 ''voter_hash'' = Some (fst (snd (args ! i)))
                  \<and> map_of kvs0 ''state'' = Some (fst (snd (snd (args ! i))))
                  \<and> map_of kvs0 ''district'' = Some (fst (snd (snd (snd (args ! i)))))
                  \<and> map_of kvs0 ''party'' = Some (fst (snd (snd (snd (snd (args ! i))))))
                  \<and> map_of kvs0 ''previous_hash'' = Some (snd (snd (snd (snd (snd (args ! i)))))))
           \<and> recs ! j = PDict kvs'
           \<and> k' \<in> set required_fields
           \<and> map_of kvs' k' = None
           \<and> (\<forall>k0\<in>set (takeWhile (\<lambda>x. x \<noteq> k') required_fields). map_of kvs' k0 \<noteq> None)
           \<and> Blockchain_init E w =
               Raised (KeyError k')
                 (w\<lparr>chain := built E (clock_calls w) args, clock_calls := clock_calls w + j\<rparr>)"
proof -
  have "\<exists>e. block_args (PDict kvs) = Inl e"
    by (rule block_args_missing [OF assms(4,5)])
  then have bad: "\<exists>r\<in>set recs. \<exists>e. block_args r = Inl e" using assms(3) by blast
  let ?w = "w\<lparr>chain := []\<rparr>"
  obtain j k' args where j: "j < length recs"
      "map block_args (take j recs) = map Inr args"
      "block_args (recs ! j) = Inl (KeyError k')"
      "load_blocks E recs ?w =
         Raised (KeyError k')
           (?w\<lparr>chain := chain ?w @ built E (clock_calls ?w) args,
               clock_calls := clock_calls ?w + j\<rparr>)"
    using load_blocks_incomplete [OF assms(2) bad, of E ?w] by blast
  have len: "length args = j"
  proof -
    have "length (map block_args (take j recs)) = length (map Inr args :: (error + _) list)"
      using j(2) by simp
    then show ?thesis using j(1) by simp
  qed
  have before: "\<exists>kvs0. recs ! i = PDict kvs0
                  \<and> map_of kvs0 ''index'' = Some (fst (args ! i))
                  \<and> map_of kvs0 ''voter_hash'' = Some (fst (snd (args ! i)))
                  \<and> map_of kvs0 ''state'' = Some (fst (snd (snd (args ! i))))
                  \<and> map_of kvs0 ''district'' = Some (fst (snd (snd (snd (args ! i)))))
                  \<and> map_of kvs0 ''party'' = Some (fst (snd (snd (snd (snd (args ! i))))))
                  \<and> map_of kvs0 ''previous_hash'' = Some (snd (snd (snd (snd (snd (args ! i))))))"
    if i: "i < j" for i
  proof -
    have "recs ! i \<in> set recs" using i j(1) by simp
    then obtain kvs0 where kv: "recs ! i = PDict kvs0" using assms(2) by blast
    have "map block_args (take j recs) ! i = (map Inr args :: (error + _) list) ! i"
      using j(2) by simp
    then have "block_args (recs ! i) = Inr (args ! i)"
      using i j(1) len by simp
    then have "block_args (PDict kvs0) =
        Inr (fst (args ! i), fst (snd (args ! i)), fst (snd (snd (args ! i))),
             fst (snd (snd (snd (args ! i)))), fst (snd (snd (snd (snd (args ! i))))),
             snd (snd (snd (snd (snd (args ! i))))))"
      using kv by simp
    then show ?thesis using kv block_args_complete by blast
  qed
  have "recs ! j \<in> set recs" using j(1) by simp
  then obtain kvs' where kv': "recs ! j = PDict kvs'" using assms(2) by blast
  have miss: "k' \<in> set required_fields \<and> map_of kvs' k' = None
           \<and> (\<forall>k0\<in>set (takeWhile (\<lambda>x. x \<noteq> k') required_fields). map_of kvs' k0 \<noteq> None)"
    using block_args_dict_error [of kvs' "KeyError k'"] j(3) kv' by auto
  have run: "Blockchain_init E w =
               Raised (KeyError k')
                 (w\<lparr>chain := built E (clock_calls w) args, clock_calls := clock_calls w + j\<rparr>)"
    using assms(1) j(4) by (simp add: Blockchain_init_def load_chain_def)
  show ?thesis using j(1) len before kv' miss run by blast
qed

lemma edited_world_run:
  "Blockchain_init test_env edited_world =
     Raised (KeyError ''party'')
       \<lparr>chain = [\<lparr>index = PInt 0, timestamp = 1000, voter_hash = PStr ''GENESIS'',
                  state = PStr ''None'', district = PStr ''None'', party = PStr ''None'',
                  previous_hash = PStr ''0'', hash = ''01000.0GENESISNoneNoneNone0''\<rparr>],
        clock_calls = 1,
        json_file = Document (PList [to_dict (hd sample_chain), incomplete_record])\<rparr>"
  by code_simp

theorem load_raises_on_incomplete_record_witness:
  "\<exists>j k' kvs' args.
           j < length [to_dict (hd sample_chain), incomplete_record]
           \<and> length args = j
           \<and> (\<forall>i<j. \<exists>kvs0. [to_dict (hd sample_chain), incomplete_record] ! i = PDict kvs0
                  \<and> map_of kvs0 ''index'' = Some (fst (args ! i))
                  \<and> map_of kvs0 ''voter_hash'' = Some (fst (snd (args ! i)))
                  \<and> map_of kvs0 ''state'' = Some (fst (snd (snd (args ! i))))
                  \<and> map_of kvs0 ''district'' = Some (fst (snd (snd (snd (args ! i)))))
                  \<and> map_of kvs0 ''party'' = Some (fst (snd (snd (snd (snd (args ! i))))))
                  \<and> map_of kvs0 ''previous_hash'' = Some (snd (snd (snd (snd (snd (args ! i)))))))
           \<and> [to_dict (hd sample_chain), incomplete_record] ! j = PDict kvs'
           \<and> k' \<in> set required_fields
           \<and> map_of kvs' k' = None
           \<and> (\<forall>k0\<in>set (takeWhile (\<lambda>x. x \<noteq> k') required_fields). map_of kvs' k0 \<noteq> None)
           \<and> Blockchain_init test_env edited_world =
               Raised (KeyError k')
                 (edited_world\<lparr>chain := built test_env (clock_calls edited_world) args,
                               clock_calls := clock_calls edited_world + j\<rparr>)"
proof -
  have a: "json_file edited_world = Document (PList [to_dict (hd sample_chain), incomplete_record])"
    by (simp add: edited_world_def)
  have b: "\<forall>r\<in>set [to_dict (hd sample_chain), incomplete_record]. \<exists>kvs. r = PDict kvs"
    by (simp add: to_dict_def incomplete_record_def)
  have c: "PDict [(''index'', PInt 1), (''timestamp'', PFloat 1001),
            (''voter_hash'', PStr ''12345''), (''state'', PStr ''Kerala''),
            (''district'', PStr ''Ernakulam''),
            (''previous_hash'', PStr ''01000.0GENESISNoneNoneNone0''),
            (''hash'', PStr ''11001.012345KeralaErnakulamLDF01000.0GENESISNoneNoneNone0'')]
          \<in> set [to_dict (hd sample_chain), incomplete_record]"
    by (simp add: incomplete_record_def)
  have d: "''party'' \<in> set required_fields" by (simp add: required_fields_def)
  have e: "map_of [(''index'', PInt 1), (''timestamp'', PFloat (1001::rat)),
            (''voter_hash'', PStr ''12345''), (''state'', PStr ''Kerala''),
            (''district'', PStr ''Ernakulam''),
            (''previous_hash'', PStr ''01000.0GENESISNoneNoneNone0''),
            (''hash'', PStr ''11001.012345KeralaErnakulamLDF01000.0GENESISNoneNoneNone0'')]
          ''party'' = None"
    by simp
  show ?thesis by (rule load_raises_on_incomplete_record [OF a b c d e])
qed

text \<open>
  C5 as stated fails: on the file whose second record lacks \<^verbatim>\<open>party\<close>, the load does
  not give the genesis-only ledger; it raises \<^verbatim>\<open>KeyError('party')\<close>, with one block
  in the chain.
\<close>

theorem load_incomplete_record_counterexample:
  "Blockchain_init test_env edited_world
     \<noteq> Returned () (create_genesis_block test_env (edited_world\<lparr>chain := []\<rparr>))
   \<and> raised_error (Blockchain_init test_env edited_world) = Some (KeyError ''party'')
   \<and> length (chain (state_after (Blockchain_init test_env edited_world))) = 1"
  by (simp add: edited_world_run)

section \<open>Saving and loading again\<close>

lemma block_args_to_dict:
  "block_args (to_dict b) =
     Inr (index b, voter_hash b, state b, district b, party b, previous_hash b)"
  by (simp add: block_args_def to_dict_def)

lemma length_rebuilt [simp]: "length (rebuilt E k bs) = length bs"
  by (induction bs arbitrary: k) simp_all

lemma load_blocks_saved:
  "load_blocks E (map to_dict bs) w =
     Returned () (w\<lparr>chain := chain w @ rebuilt E (clock_calls w) bs,
                    clock_calls := clock_calls w + length bs\<rparr>)"
proof (induction bs arbitrary: w)
  case Nil
  show ?case by simp
next
  case (Cons b bs)
  let ?w1 = "w\<lparr>chain := chain w @ [Block_init E (time_time E (clock_calls w)) (index b)
                 (voter_hash b) (state b) (district b) (party b) (previous_hash b)],
                clock_calls := clock_calls w + 1\<rparr>"
  have "load_blocks E (map to_dict (b # bs)) w = load_blocks E (map to_dict bs) ?w1"
    by (simp add: block_args_to_dict)
  also have "\<dots> = Returned () (?w1\<lparr>chain := chain ?w1 @ rebuilt E (clock_calls ?w1) bs,
                    clock_calls := clock_calls ?w1 + length bs\<rparr>)"
    by (rule Cons.IH)
  finally show ?case by simp
qed

lemma reload_saved:
  assumes "chain w \<noteq> []"
  shows "Blockchain_init E (save_chain w) =
     Returned () (w\<lparr>chain := rebuilt E (clock_calls w) (chain w),
                    clock_calls := clock_calls w + length (chain w),
                    json_file := Document (PList (map to_dict (chain w)))\<rparr>)"
proof -
  have "rebuilt E (clock_calls w) (chain w) \<noteq> []"
    using assms by (cases "chain w") simp_all
  then show ?thesis
    by (simp add: Blockchain_init_def load_chain_def save_chain_def load_blocks_saved
        ensure_genesis_def)
qed

lemma add_votes_extends:
  assumes "chain w \<noteq> []" and "add_votes E vs w = Returned None w'"
  shows "\<exists>ext. chain w' = chain w @ ext \<and> length ext = length vs
           \<and> clock_calls w' = clock_calls w + length vs"
  using assms
proof (induction vs arbitrary: w)
  case Nil
  then show ?case by simp
next
  case (Cons v vs)
  obtain voter_id st di pa where v: "v = (voter_id, st, di, pa)" by (cases v) auto
  let ?b = "Block_init E (time_time E (clock_calls w)) (PInt (int (length (chain w))))
               (PStr (sha256_hex E voter_id)) (PStr st) (PStr di) (PStr pa)
               (PStr (hash (last (chain w))))"
  let ?w1 = "w\<lparr>chain := chain w @ [?b], clock_calls := clock_calls w + 1\<rparr>"
  have step: "add_vote E voter_id st di pa w = Returned None ?w1"
    by (rule add_vote_nonempty [OF Cons.prems(1)])
  have n1: "chain ?w1 \<noteq> []" by simp
  have r: "add_votes E vs ?w1 = Returned None w'"
    using Cons.prems(2) step by (simp add: v)
  obtain ext where "chain w' = chain ?w1 @ ext" "length ext = length vs"
      "clock_calls w' = clock_calls ?w1 + length vs"
    using Cons.IH [OF n1 r] by blast
  then have "chain w' = chain w @ (?b # ext) \<and> length (?b # ext) = length (v # vs)
           \<and> clock_calls w' = clock_calls w + length (v # vs)"
    by simp
  then show ?case by blast
qed

lemma str_int_0: "str_int 0 = ''0''"
  by code_simp

lemma hash_genesis:
  "hash (Block_init E t (PInt 0) (PStr ''GENESIS'') (PStr ''None'') (PStr ''None'')
           (PStr ''None'') (PStr ''0'')) =
   sha256_hex E (''0'' @ repr_value E (PFloat t) @ ''GENESISNoneNoneNone0'')"
  by (simp add: Block_init_def Let_def calculate_hash_def str_int_0)

text \<open>
  C1 does not hold of the code. Take the ledger made from the genesis block by one or more
  votes, save it, and build the \<^verbatim>\<open>Blockchain\<close> again from the file. The load builds
  every block anew through \<^verbatim>\<open>Block(...)\<close>, which reads \<^verbatim>\<open>time.time()\<close> again
  and computes the hash from it; the stored \<^verbatim>\<open>timestamp\<close> and \<^verbatim>\<open>hash\<close> are not
  read. So, whenever the digest of the genesis data at the time of the load differs from
  the one at the time of creation, the loaded genesis block has another timestamp and
  another hash than the saved one, the chains differ, and \<^verbatim>\<open>is_chain_valid\<close> is false
  on the loaded chain.
\<close>

theorem reload_breaks_round_trip:
  assumes run: "add_votes E (v # vs) (create_genesis_block E (w\<lparr>chain := []\<rparr>)) = Returned None w1"
    and digest:
      "sha256_hex E (''0'' @ repr_value E (PFloat (time_time E (clock_calls w1)))
                      @ ''GENESISNoneNoneNone0'')
       \<noteq> sha256_hex E (''0'' @ repr_value E (PFloat (time_time E (clock_calls w)))
                        @ ''GENESISNoneNoneNone0'')"
  shows "\<exists>w2. Blockchain_init E (save_chain w1) = Returned () w2
           \<and> length (chain w2) = length (chain w1)
           \<and> timestamp (chain w2 ! 0) = time_time E (clock_calls w1)
           \<and> timestamp (chain w2 ! 0) \<noteq> timestamp (chain w1 ! 0)
           \<and> hash (chain w2 ! 0) \<noteq> hash (chain w1 ! 0)
           \<and> chain w2 \<noteq> chain w1
           \<and> \<not> is_chain_valid (chain w2)"
proof -
  let ?w0 = "create_genesis_block E (w\<lparr>chain := []\<rparr>)"
  let ?g = "Block_init E (time_time E (clock_calls w)) (PInt 0) (PStr ''GENESIS'')
              (PStr ''None'') (PStr ''None'') (PStr ''None'') (PStr ''0'')"
  let ?g' = "Block_init E (time_time E (clock_calls w1)) (PInt 0) (PStr ''GENESIS'')
              (PStr ''None'') (PStr ''None'') (PStr ''None'') (PStr ''0'')"
  have c0: "chain ?w0 = [?g]" by (simp add: chain_create_genesis_block)
  have n0: "chain ?w0 \<noteq> []" by (simp add: c0)
  have i0: "\<forall>i<length (chain ?w0). index (chain ?w0 ! i) = PInt (int i)" by (simp add: c0)
  have v0: "is_chain_valid (chain ?w0)" by (rule is_chain_valid_short) (simp add: c0)
  have valid1: "is_chain_valid (chain w1)"
    using add_votes_preserves [OF n0 i0 v0, of E "v # vs"] run by auto
  obtain ext where ext: "chain w1 = chain ?w0 @ ext" "length ext = length (v # vs)"
    using add_votes_extends [OF n0 run] by blast
  then obtain b bs where bs: "ext = b # bs" by (cases ext) auto
  have c1: "chain w1 = ?g # b # bs" using ext(1) c0 bs by simp
  have link: "previous_hash b = PStr (hash ?g)"
  proof -
    have "1 \<le> (1::nat) \<and> 1 < length (chain w1)" by (simp add: c1)
    then have "previous_hash (chain w1 ! 1) = PStr (hash (chain w1 ! (1 - 1)))"
      using valid1 unfolding is_chain_valid_iff by blast
    then show ?thesis by (simp add: c1)
  qed
  let ?c2 = "rebuilt E (clock_calls w1) (chain w1)"
  let ?w2 = "w1\<lparr>chain := ?c2, clock_calls := clock_calls w1 + length (chain w1),
                 json_file := Document (PList (map to_dict (chain w1)))\<rparr>"
  have n1: "chain w1 \<noteq> []" by (simp add: c1)
  have r: "Blockchain_init E (save_chain w1) = Returned () ?w2"
    by (rule reload_saved [OF n1])
  have c2: "?c2 = ?g' # Block_init E (time_time E (Suc (clock_calls w1))) (index b) (voter_hash b)
                        (state b) (district b) (party b) (previous_hash b)
                  # rebuilt E (Suc (Suc (clock_calls w1))) bs"
    by (simp add: c1)
  have h: "hash ?g' \<noteq> hash ?g" using digest by (simp add: hash_genesis)
  have t: "time_time E (clock_calls w1) \<noteq> time_time E (clock_calls w)"
    using digest by auto
  have inv: "\<not> is_chain_valid ?c2"
  proof -
    have "1 \<le> (1::nat) \<and> 1 < length ?c2
          \<and> previous_hash (?c2 ! 1) \<noteq> PStr (hash (?c2 ! (1 - 1)))"
      unfolding c2 using link h by simp
    then show ?thesis unfolding is_chain_valid_iff by blast
  qed
  have ts: "timestamp (?c2 ! 0) = time_time E (clock_calls w1)" unfolding c2 by simp
  have ts1: "timestamp (chain w1 ! 0) = time_time E (clock_calls w)" by (simp add: c1)
  have h0: "hash (?c2 ! 0) \<noteq> hash (chain w1 ! 0)" unfolding c2 using h by (simp add: c1)
  have ne: "?c2 \<noteq> chain w1" using h0 by auto
  have "Blockchain_init E (save_chain w1) = Returned () ?w2
           \<and> length (chain ?w2) = length (chain w1)
           \<and> timestamp (chain ?w2 ! 0) = time_time E (clock_calls w1)
           \<and> timestamp (chain ?w2 ! 0) \<noteq> timestamp (chain w1 ! 0)
           \<and> hash (chain ?w2 ! 0) \<noteq> hash (chain w1 ! 0)
           \<and> chain ?w2 \<noteq> chain w1
           \<and> \<not> is_chain_valid (chain ?w2)"
    using r inv ts ts1 t h0 ne by simp
  then show ?thesis by blast
qed

theorem reload_breaks_round_trip_witness:
  "\<exists>w2. Blockchain_init test_env
           (save_chain \<lparr>chain = sample_chain, clock_calls = 2, json_file = Missing\<rparr>)
         = Returned () w2
       \<and> length (chain w2) = length sample_chain
       \<and> timestamp (chain w2 ! 0) = 1002
       \<and> timestamp (chain w2 ! 0) \<noteq> timestamp (sample_chain ! 0)
       \<and> hash (chain w2 ! 0) \<noteq> hash (sample_chain ! 0)
       \<and> chain w2 \<noteq> sample_chain
       \<and> \<not> is_chain_valid (chain w2)"
proof -
  let ?w1 = "\<lparr>chain = sample_chain, clock_calls = 2, json_file = Missing\<rparr> :: rat world"
  have e: "empty_world\<lparr>chain := []\<rparr> = empty_world" by (simp add: empty_world_def)
  have run: "add_votes test_env ((''12345'', ''Kerala'', ''Ernakulam'', ''LDF'') # [])
               (create_genesis_block test_env (empty_world\<lparr>chain := []\<rparr>)) = Returned None ?w1"
    unfolding e by (rule sample_chain_run)
  have digest:
      "sha256_hex test_env (''0'' @ repr_value test_env (PFloat (time_time test_env (clock_calls ?w1)))
                      @ ''GENESISNoneNoneNone0'')
       \<noteq> sha256_hex test_env (''0'' @ repr_value test_env (PFloat (time_time test_env (clock_calls empty_world)))
                        @ ''GENESISNoneNoneNone0'')"
    by code_simp
  have t: "time_time test_env (clock_calls ?w1) = 1002" by (simp add: test_env_def)
  show ?thesis
    using reload_breaks_round_trip [OF run digest] unfolding t by simp
qed

section \<open>Counting the votes\<close>

lemma tally_chain_run:
  "add_votes test_env
     [(''67890'', ''Kerala'', ''Ernakulam'', ''LDF''),
      (''67890'', ''Kerala'', ''Ernakulam'', ''LDF''),
      (''11111'', ''Tamil Nadu'', ''Chennai'', ''BJP'')]
     (create_genesis_block test_env empty_world) =
   Returned None \<lparr>chain = tally_chain, clock_calls = 4, json_file = Missing\<rparr>"
  by code_simp

lemma select_votes_int:
  fixes c :: "'f::{zero,ord} block list"
  assumes "\<forall>b\<in>set c. \<exists>i. index b = PInt i"
  shows "select_votes c = Inr (filter (\<lambda>b. index_positive (index b) = Inr True) c)"
  using assms
proof (induction c)
  case Nil
  show ?case by simp
next
  case (Cons b c)
  obtain i where i: "index b = PInt i" using Cons.prems by auto
  have "select_votes c = Inr (filter (\<lambda>b. index_positive (index b) = Inr True) c)"
    using Cons by simp
  then show ?case using i by simp
qed

lemma those_vote_key:
  assumes "\<forall>b\<in>set df. vote_key b \<noteq> None"
  shows "those (map vote_key df) = Some (map (\<lambda>b. the (vote_key b)) df)"
  using assms by (induction df) auto

lemma count_list_map_filter:
  "count_list (map f xs) k = length (filter (\<lambda>x. f x = k) xs)"
  by (induction xs) simp_all

lemma count_list_pos_iff: "0 < count_list xs k \<longleftrightarrow> k \<in> set xs"
  by (induction xs) auto

lemma sort_two_keys:
  "sort (remdups [(''Kerala'', ''Ernakulam'', ''LDF''), (''Kerala'', ''Ernakulam'', ''LDF''),
                  (''Tamil Nadu'', ''Chennai'', ''BJP'')]) =
   [(''Kerala'', ''Ernakulam'', ''LDF''), (''Tamil Nadu'', ''Chennai'', ''BJP'')]"
  by code_simp

lemma get_vote_counts_text:
  fixes c :: "'f::{zero,ord} block list"
  assumes "\<forall>b\<in>set c. (\<exists>i. index b = PInt i) \<and> vote_key b \<noteq> None"
  shows "get_vote_counts c =
     Inr (let df = filter (\<lambda>b. index_positive (index b) = Inr True) c;
              keys = map (\<lambda>b. the (vote_key b)) df
          in if df = [] then \<lparr>columns = [''State'', ''District'', ''Party'', ''Votes''], rows = []\<rparr>
             else \<lparr>columns = [''state'', ''district'', ''party'', ''Votes''],
                   rows = map (\<lambda>k. (k, count_list keys k)) (sort (remdups keys))\<rparr>)"
proof -
  let ?df = "filter (\<lambda>b. index_positive (index b) = Inr True) c"
  have s: "select_votes c = Inr ?df" using assms by (intro select_votes_int) blast
  have "\<forall>b\<in>set ?df. vote_key b \<noteq> None" using assms by simp
  then have t: "those (map vote_key ?df) = Some (map (\<lambda>b. the (vote_key b)) ?df)"
    by (rule those_vote_key)
  show ?thesis unfolding get_vote_counts_def s by (simp add: t Let_def)
qed

text \<open>
  C8. \<^verbatim>\<open>get_vote_counts\<close> leaves out the blocks whose index is not above 0 (the genesis
  block), groups the others by state, district and party, and gives each group the number
  of its blocks: on a chain whose blocks have whole-number indices and text labels, the
  rows have distinct keys in ascending order, and a key stands in a row with count \<open>n\<close>
  exactly when \<open>n > 0\<close> blocks with index above 0 carry that key. In particular, a
  genesis block followed by votes for Kerala/Ernakulam/LDF, Kerala/Ernakulam/LDF and
  Tamil Nadu/Chennai/BJP gives the counts 2 and 1.
\<close>

theorem get_vote_counts_tally:
  fixes c :: "'f::{zero,ord} block list" and g b1 b2 b3 :: "'f block"
  shows
    "((\<forall>b\<in>set c. (\<exists>i. index b = PInt i) \<and> vote_key b \<noteq> None) \<longrightarrow>
        (\<exists>fr. get_vote_counts c = Inr fr
           \<and> sorted (map fst (rows fr)) \<and> distinct (map fst (rows fr))
           \<and> (\<forall>k n. (k, n) \<in> set (rows fr) \<longleftrightarrow>
                  0 < n \<and> n = length (filter (\<lambda>b. index_positive (index b) = Inr True
                                                    \<and> vote_key b = Some k) c))))
     \<and> (index g = PInt 0 \<and> index b1 = PInt 1 \<and> index b2 = PInt 2 \<and> index b3 = PInt 3
        \<and> state b1 = PStr ''Kerala'' \<and> district b1 = PStr ''Ernakulam'' \<and> party b1 = PStr ''LDF''
        \<and> state b2 = PStr ''Kerala'' \<and> district b2 = PStr ''Ernakulam'' \<and> party b2 = PStr ''LDF''
        \<and> state b3 = PStr ''Tamil Nadu'' \<and> district b3 = PStr ''Chennai'' \<and> party b3 = PStr ''BJP''
        \<longrightarrow> get_vote_counts [g, b1, b2, b3] =
              Inr \<lparr>columns = [''state'', ''district'', ''party'', ''Votes''],
                   rows = [((''Kerala'', ''Ernakulam'', ''LDF''), 2),
                           ((''Tamil Nadu'', ''Chennai'', ''BJP''), 1)]\<rparr>)"
proof (intro conjI impI)
  assume a: "\<forall>b\<in>set c. (\<exists>i. index b = PInt i) \<and> vote_key b \<noteq> None"
  let ?P = "\<lambda>b. index_positive (index b) = Inr True"
  let ?df = "filter ?P c"
  let ?keys = "map (\<lambda>b. the (vote_key b)) ?df"
  have cnt: "count_list ?keys k = length (filter (\<lambda>b. ?P b \<and> vote_key b = Some k) c)" for k
  proof -
    have "count_list ?keys k = length (filter (\<lambda>b. the (vote_key b) = k) ?df)"
      by (rule count_list_map_filter)
    also have "filter (\<lambda>b. the (vote_key b) = k) ?df = filter (\<lambda>b. vote_key b = Some k) ?df"
      using a by (intro filter_cong) auto
    also have "\<dots> = filter (\<lambda>b. ?P b \<and> vote_key b = Some k) c"
      by (simp add: conj_commute)
    finally show ?thesis .
  qed
  show "\<exists>fr. get_vote_counts c = Inr fr
           \<and> sorted (map fst (rows fr)) \<and> distinct (map fst (rows fr))
           \<and> (\<forall>k n. (k, n) \<in> set (rows fr) \<longleftrightarrow>
                  0 < n \<and> n = length (filter (\<lambda>b. ?P b \<and> vote_key b = Some k) c))"
  proof (cases "?df = []")
    case True
    have z: "length (filter (\<lambda>b. ?P b \<and> vote_key b = Some k) c) = 0" for k
      using cnt [of k] True by simp
    have "get_vote_counts c =
            Inr \<lparr>columns = [''State'', ''District'', ''Party'', ''Votes''], rows = []\<rparr>"
      using get_vote_counts_text [OF a] True by (simp add: Let_def)
    then show ?thesis using z by auto
  next
    case False
    let ?fr = "\<lparr>columns = [''state'', ''district'', ''party'', ''Votes''],
                rows = map (\<lambda>k. (k, count_list ?keys k)) (sort (remdups ?keys))\<rparr>"
    have g: "get_vote_counts c = Inr ?fr"
      using get_vote_counts_text [OF a] False by (simp add: Let_def)
    have f: "map fst (rows ?fr) = sort (remdups ?keys)" by (simp add: comp_def)
    have m: "(k, n) \<in> set (rows ?fr) \<longleftrightarrow>
               0 < n \<and> n = length (filter (\<lambda>b. ?P b \<and> vote_key b = Some k) c)" for k n
    proof -
      have "(k, n) \<in> set (rows ?fr) \<longleftrightarrow> k \<in> set ?keys \<and> n = count_list ?keys k"
        by auto
      also have "\<dots> \<longleftrightarrow> 0 < n \<and> n = count_list ?keys k"
        using count_list_pos_iff [of ?keys k] by auto
      finally show ?thesis unfolding cnt .
    qed
    have "sorted (map fst (rows ?fr)) \<and> distinct (map fst (rows ?fr))"
      unfolding f by simp
    then show ?thesis using g m by blast
  qed
next
  assume e: "index g = PInt 0 \<and> index b1 = PInt 1 \<and> index b2 = PInt 2 \<and> index b3 = PInt 3
        \<and> state b1 = PStr ''Kerala'' \<and> district b1 = PStr ''Ernakulam'' \<and> party b1 = PStr ''LDF''
        \<and> state b2 = PStr ''Kerala'' \<and> district b2 = PStr ''Ernakulam'' \<and> party b2 = PStr ''LDF''
        \<and> state b3 = PStr ''Tamil Nadu'' \<and> district b3 = PStr ''Chennai'' \<and> party b3 = PStr ''BJP''"
  have s: "select_votes [g, b1, b2, b3] = Inr [b1, b2, b3]" using e by simp
  have k: "those (map vote_key [b1, b2, b3]) =
             Some [(''Kerala'', ''Ernakulam'', ''LDF''), (''Kerala'', ''Ernakulam'', ''LDF''),
                   (''Tamil Nadu'', ''Chennai'', ''BJP'')]"
    using e by (simp add: vote_key_def)
  show "get_vote_counts [g, b1, b2, b3] =
              Inr \<lparr>columns = [''state'', ''district'', ''party'', ''Votes''],
                   rows = [((''Kerala'', ''Ernakulam'', ''LDF''), 2),
                           ((''Tamil Nadu'', ''Chennai'', ''BJP''), 1)]\<rparr>"
  proof -
    have "get_vote_counts [g, b1, b2, b3] =
            Inr \<lparr>columns = [''state'', ''district'', ''party'', ''Votes''],
                 rows = map (\<lambda>k. (k, count_list
                           [(''Kerala'', ''Ernakulam'', ''LDF''), (''Kerala'', ''Ernakulam'', ''LDF''),
                            (''Tamil Nadu'', ''Chennai'', ''BJP'')] k))
                         (sort (remdups
                           [(''Kerala'', ''Ernakulam'', ''LDF''), (''Kerala'', ''Ernakulam'', ''LDF''),
                            (''Tamil Nadu'', ''Chennai'', ''BJP'')]))\<rparr>"
      unfolding get_vote_counts_def s and_then.simps k by simp
    then show ?thesis unfolding sort_two_keys by simp
  qed
qed

theorem get_vote_counts_tally_witness:
  "(\<exists>fr. get_vote_counts tally_chain = Inr fr
       \<and> sorted (map fst (rows fr)) \<and> distinct (map fst (rows fr))
       \<and> (\<forall>k n. (k, n) \<in> set (rows fr) \<longleftrightarrow>
              0 < n \<and> n = length (filter (\<lambda>b. index_positive (index b) = Inr True
                                                \<and> vote_key b = Some k) tally_chain)))
   \<and> get_vote_counts tally_chain =
       Inr \<lparr>columns = [''state'', ''district'', ''party'', ''Votes''],
            rows = [((''Kerala'', ''Ernakulam'', ''LDF''), 2),
                    ((''Tamil Nadu'', ''Chennai'', ''BJP''), 1)]\<rparr>"
proof -
  have a: "\<forall>b\<in>set tally_chain. (\<exists>i. index b = PInt i) \<and> vote_key b \<noteq> None"
    by (simp add: tally_chain_def vote_key_def)
  have l: "[tally_chain ! 0, tally_chain ! 1, tally_chain ! 2, tally_chain ! 3] = tally_chain"
    by (simp add: tally_chain_def)
  have b: "index (tally_chain ! 0) = PInt 0 \<and> index (tally_chain ! 1) = PInt 1
        \<and> index (tally_chain ! 2) = PInt 2 \<and> index (tally_chain ! 3) = PInt 3
        \<and> state (tally_chain ! 1) = PStr ''Kerala'' \<and> district (tally_chain ! 1) = PStr ''Ernakulam''
        \<and> party (tally_chain ! 1) = PStr ''LDF''
        \<and> state (tally_chain ! 2) = PStr ''Kerala'' \<and> district (tally_chain ! 2) = PStr ''Ernakulam''
        \<and> party (tally_chain ! 2) = PStr ''LDF''
        \<and> state (tally_chain ! 3) = PStr ''Tamil Nadu'' \<and> district (tally_chain ! 3) = PStr ''Chennai''
        \<and> party (tally_chain ! 3) = PStr ''BJP''"
    by (simp add: tally_chain_def)
  note t = get_vote_counts_tally [of tally_chain "tally_chain ! 0" "tally_chain ! 1"
      "tally_chain ! 2" "tally_chain ! 3"]
  have first: "\<exists>fr. get_vote_counts tally_chain = Inr fr
       \<and> sorted (map fst (rows fr)) \<and> distinct (map fst (rows fr))
       \<and> (\<forall>k n. (k, n) \<in> set (rows fr) \<longleftrightarrow>
              0 < n \<and> n = length (filter (\<lambda>b. index_positive (index b) = Inr True
                                                \<and> vote_key b = Some k) tally_chain))"
    using t a by blast
  have second: "get_vote_counts tally_chain =
       Inr \<lparr>columns = [''state'', ''district'', ''party'', ''Votes''],
            rows = [((''Kerala'', ''Ernakulam'', ''LDF''), 2),
                    ((''Tamil Nadu'', ''Chennai'', ''BJP''), 1)]\<rparr>"
    using t b unfolding l by blast
  show ?thesis using first second by blast
qed

lemma add_votes_text:
  assumes "chain w \<noteq> []"
    and "\<forall>b\<in>set (chain w). (\<exists>i. index b = PInt i) \<and> vote_key b \<noteq> None"
    and "add_votes E vs w = Returned None w'"
  shows "\<forall>b\<in>set (chain w'). (\<exists>i. index b = PInt i) \<and> vote_key b \<noteq> None"
  using assms
proof (induction vs arbitrary: w)
  case Nil
  then show ?case by simp
next
  case (Cons v vs)
  obtain voter_id st di pa where v: "v = (voter_id, st, di, pa)" by (cases v) auto
  let ?b = "Block_init E (time_time E (clock_calls w)) (PInt (int (length (chain w))))
               (PStr (sha256_hex E voter_id)) (PStr st) (PStr di) (PStr pa)
               (PStr (hash (last (chain w))))"
  let ?w1 = "w\<lparr>chain := chain w @ [?b], clock_calls := clock_calls w + 1\<rparr>"
  have step: "add_vote E voter_id st di pa w = Returned None ?w1"
    by (rule add_vote_nonempty [OF Cons.prems(1)])
  have n1: "chain ?w1 \<noteq> []" by simp
  have t1: "\<forall>b\<in>set (chain ?w1). (\<exists>i. index b = PInt i) \<and> vote_key b \<noteq> None"
    using Cons.prems(2) by (simp add: vote_key_def)
  have r: "add_votes E vs ?w1 = Returned None w'"
    using Cons.prems(3) step by (simp add: v)
  show ?case by (rule Cons.IH [OF n1 t1 r])
qed

text \<open>
  C10. On the ledger that holds only the genesis block, \<^verbatim>\<open>get_vote_counts\<close> returns
  an empty table with the columns \<^verbatim>\<open>State\<close>, \<^verbatim>\<open>District\<close>, \<^verbatim>\<open>Party\<close>,
  \<^verbatim>\<open>Votes\<close>; once one vote or more has been added, the table it returns has rows and
  the columns \<^verbatim>\<open>state\<close>, \<^verbatim>\<open>district\<close>, \<^verbatim>\<open>party\<close>, \<^verbatim>\<open>Votes\<close>. The
  same holds of any chain: no selected block gives the first header, at least one gives the
  second whenever a table is returned. The two headers differ.
\<close>

theorem get_vote_counts_columns:
  fixes E :: "'f::{zero,ord} env" and c :: "'f block list"
  shows
    "get_vote_counts (chain (create_genesis_block E (w\<lparr>chain := []\<rparr>))) =
       Inr \<lparr>columns = [''State'', ''District'', ''Party'', ''Votes''], rows = []\<rparr>
     \<and> (\<exists>fr. get_vote_counts
               (chain (state_after (add_votes E (v # vs) (create_genesis_block E (w\<lparr>chain := []\<rparr>)))))
             = Inr fr
           \<and> columns fr = [''state'', ''district'', ''party'', ''Votes'']
           \<and> rows fr \<noteq> [])
     \<and> (select_votes c = Inr df \<and> df \<noteq> [] \<and> get_vote_counts c = Inr fr
          \<longrightarrow> columns fr = [''state'', ''district'', ''party'', ''Votes''])
     \<and> (select_votes c = Inr [] \<longrightarrow>
          get_vote_counts c =
            Inr \<lparr>columns = [''State'', ''District'', ''Party'', ''Votes''], rows = []\<rparr>)
     \<and> [''State'', ''District'', ''Party'', ''Votes''] \<noteq> [''state'', ''district'', ''party'', ''Votes'']"
proof (intro conjI impI)
  let ?w0 = "create_genesis_block E (w\<lparr>chain := []\<rparr>)"
  have c0: "chain ?w0 =
     [Block_init E (time_time E (clock_calls w)) (PInt 0) (PStr ''GENESIS'')
        (PStr ''None'') (PStr ''None'') (PStr ''None'') (PStr ''0'')]"
    by (simp add: chain_create_genesis_block)
  show "get_vote_counts (chain ?w0) =
       Inr \<lparr>columns = [''State'', ''District'', ''Party'', ''Votes''], rows = []\<rparr>"
    unfolding c0 by (simp add: get_vote_counts_def)
  have n0: "chain ?w0 \<noteq> []" by (simp add: c0)
  have i0: "\<forall>i<length (chain ?w0). index (chain ?w0 ! i) = PInt (int i)" by (simp add: c0)
  have v0: "is_chain_valid (chain ?w0)" by (rule is_chain_valid_short) (simp add: c0)
  have t0: "\<forall>b\<in>set (chain ?w0). (\<exists>i. index b = PInt i) \<and> vote_key b \<noteq> None"
    by (simp add: c0 vote_key_def)
  obtain w1 where r: "add_votes E (v # vs) ?w0 = Returned None w1"
      and l: "length (chain w1) = length (chain ?w0) + length (v # vs)"
      and i: "\<forall>i<length (chain w1). index (chain w1 ! i) = PInt (int i)"
    using add_votes_preserves [OF n0 i0 v0, of E "v # vs"] by blast
  have t1: "\<forall>b\<in>set (chain w1). (\<exists>i. index b = PInt i) \<and> vote_key b \<noteq> None"
    by (rule add_votes_text [OF n0 t0 r])
  let ?df = "filter (\<lambda>b. index_positive (index b) = Inr True) (chain w1)"
  have one: "1 < length (chain w1)" using l by (simp add: c0)
  then have "index (chain w1 ! 1) = PInt (int 1)" using i by blast
  then have "index (chain w1 ! 1) = PInt 1" by simp
  then have "index_positive (index (chain w1 ! 1)) = Inr True" by simp
  moreover have "chain w1 ! 1 \<in> set (chain w1)" using one by simp
  ultimately have "chain w1 ! 1 \<in> set ?df" by simp
  then have df: "?df \<noteq> []" by (metis empty_iff empty_set)
  have "get_vote_counts (chain w1) =
          Inr \<lparr>columns = [''state'', ''district'', ''party'', ''Votes''],
               rows = map (\<lambda>k. (k, count_list (map (\<lambda>b. the (vote_key b)) ?df) k))
                        (sort (remdups (map (\<lambda>b. the (vote_key b)) ?df)))\<rparr>"
    using get_vote_counts_text [OF t1] df by (simp add: Let_def)
  moreover have "sort (remdups (map (\<lambda>b. the (vote_key b)) ?df)) \<noteq> []"
  proof
    let ?keys = "map (\<lambda>b. the (vote_key b)) ?df"
    assume e: "sort (remdups ?keys) = []"
    have "length (sort (remdups ?keys)) = length (remdups ?keys)" by (rule length_sort)
    then have "remdups ?keys = []" unfolding e by simp
    then show False using df by simp
  qed
  ultimately show "\<exists>fr. get_vote_counts (chain (state_after (add_votes E (v # vs) ?w0))) = Inr fr
           \<and> columns fr = [''state'', ''district'', ''party'', ''Votes'']
           \<and> rows fr \<noteq> []"
    unfolding r by simp
next
  assume "select_votes c = Inr df \<and> df \<noteq> [] \<and> get_vote_counts c = Inr fr"
  then show "columns fr = [''state'', ''district'', ''party'', ''Votes'']"
    by (auto simp: get_vote_counts_def split: option.splits)
next
  assume "select_votes c = Inr []"
  then show "get_vote_counts c =
            Inr \<lparr>columns = [''State'', ''District'', ''Party'', ''Votes''], rows = []\<rparr>"
    by (simp add: get_vote_counts_def)
next
  show "[''State'', ''District'', ''Party'', ''Votes''] \<noteq> [''state'', ''district'', ''party'', ''Votes'']"
    by simp
qed

lemma sample_chain_votes: "select_votes sample_chain = Inr [sample_chain ! 1]"
  by code_simp

lemma sample_chain_counts:
  "get_vote_counts sample_chain =
     Inr \<lparr>columns = [''state'', ''district'', ''party'', ''Votes''],
          rows = [((''Kerala'', ''Ernakulam'', ''LDF''), 1)]\<rparr>"
  by code_simp

lemma sample_genesis_votes: "select_votes (take 1 sample_chain) = Inr []"
  by code_simp

theorem get_vote_counts_columns_witness:
  "select_votes sample_chain = Inr [sample_chain ! 1]
   \<and> get_vote_counts sample_chain =
       Inr \<lparr>columns = [''state'', ''district'', ''party'', ''Votes''],
            rows = [((''Kerala'', ''Ernakulam'', ''LDF''), 1)]\<rparr>
   \<and> columns \<lparr>columns = [''state'', ''district'', ''party'', ''Votes''],
               rows = [((''Kerala'', ''Ernakulam'', ''LDF''), 1)]\<rparr>
       = [''state'', ''district'', ''party'', ''Votes'']
   \<and> select_votes (take 1 sample_chain) = Inr []
   \<and> get_vote_counts (take 1 sample_chain) =
       Inr \<lparr>columns = [''State'', ''District'', ''Party'', ''Votes''], rows = []\<rparr>"
proof -
  note t = get_vote_counts_columns
    [where c = sample_chain and df = "[sample_chain ! 1]"
       and fr = "\<lparr>columns = [''state'', ''district'', ''party'', ''Votes''],
                  rows = [((''Kerala'', ''Ernakulam'', ''LDF''), 1)]\<rparr>"]
  note u = get_vote_counts_columns [where c = "take 1 sample_chain"]
  have a: "columns \<lparr>columns = [''state'', ''district'', ''party'', ''Votes''],
               rows = [((''Kerala'', ''Ernakulam'', ''LDF''), 1)]\<rparr>
       = [''state'', ''district'', ''party'', ''Votes'']"
    using t sample_chain_votes sample_chain_counts by blast
  have b: "get_vote_counts (take 1 sample_chain) =
       Inr \<lparr>columns = [''State'', ''District'', ''Party'', ''Votes''], rows = []\<rparr>"
    using u sample_genesis_votes by blast
  show ?thesis using a b sample_chain_votes sample_chain_counts sample_genesis_votes by blast
qed

end
